theory Spec2Isabelle
  imports Complex_Main "HOL-Library.Sublist" "HOL-Library.Multiset" "HOL-Library.AList"
begin

section \<open>JavaScript values used by the annotation actions\<close>

text \<open>
  A JavaScript number is kept as its mathematical value where it is finite; \<open>NaN\<close> and the
  two infinities are values of their own. Positive and negative zero are one value, which
  is also what \<open>Array.prototype.includes\<close> (SameValueZero) makes of them.
\<close>

datatype jsnum = NaN | PosInfinity | NegInfinity | Finite rat

datatype jsval = Undefined | Null | JNum jsnum | JStr string

text \<open>\<open>Number.isInteger\<close>: true only of a finite number without fractional part.\<close>

fun isInteger :: "jsval \<Rightarrow> bool" where
  "isInteger (JNum (Finite q)) = (of_int \<lfloor>q\<rfloor> = q)"
| "isInteger _ = False"

text \<open>The exceptions of \<open>exceptions.ts\<close>, and the two built-in ones the code can raise.\<close>

datatype error =
    ArgumentError string
  | DataError string
  | ScriptingError string
  | ServerError string int
  | TypeError string
  | Error string

subsection \<open>The unary plus on a string\<close>

text \<open>
  \<open>+s\<close> on a string is the language's StringToNumber: surrounding white space is dropped, the
  empty string is zero, a signed decimal literal (with fraction and exponent), \<open>Infinity\<close>
  and an unsigned binary, octal or hexadecimal literal have their value, anything else is
  \<open>NaN\<close>. Strings are taken over ASCII, and the literal's mathematical value is kept
  without the rounding to a double.
\<close>

definition isStrWhiteSpace :: "char \<Rightarrow> bool" where
  "isStrWhiteSpace c \<longleftrightarrow> c \<in> set [CHR 0x09, CHR 0x0A, CHR 0x0B, CHR 0x0C, CHR 0x0D, CHR 0x20]"

definition trimString :: "string \<Rightarrow> string" where
  "trimString s = rev (dropWhile isStrWhiteSpace (rev (dropWhile isStrWhiteSpace s)))"

definition digitValue :: "char \<Rightarrow> nat option" where
  "digitValue c =
     (let n = (of_char c :: nat) in
      if 48 \<le> n \<and> n \<le> 57 then Some (n - 48)
      else if 97 \<le> n \<and> n \<le> 102 then Some (n - 87)
      else if 65 \<le> n \<and> n \<le> 70 then Some (n - 55)
      else None)"

definition isDecimalDigit :: "char \<Rightarrow> bool" where
  "isDecimalDigit c \<longleftrightarrow> 48 \<le> (of_char c :: nat) \<and> (of_char c :: nat) \<le> 57"

fun digitsValue :: "nat \<Rightarrow> string \<Rightarrow> nat \<Rightarrow> nat option" where
  "digitsValue b [] acc = Some acc"
| "digitsValue b (c # cs) acc =
     (case digitValue c of
        None \<Rightarrow> None
      | Some d \<Rightarrow> if d < b then digitsValue b cs (acc * b + d) else None)"

definition nonEmptyDigits :: "nat \<Rightarrow> string \<Rightarrow> nat option" where
  "nonEmptyDigits b ds = (if ds = [] then None else digitsValue b ds 0)"

definition nonDecimalIntegerLiteral :: "string \<Rightarrow> nat option" where
  "nonDecimalIntegerLiteral s =
     (case s of
        c0 # c1 # ds \<Rightarrow>
          if c0 \<noteq> CHR ''0'' then None
          else if c1 = CHR ''x'' \<or> c1 = CHR ''X'' then nonEmptyDigits 16 ds
          else if c1 = CHR ''o'' \<or> c1 = CHR ''O'' then nonEmptyDigits 8 ds
          else if c1 = CHR ''b'' \<or> c1 = CHR ''B'' then nonEmptyDigits 2 ds
          else None
      | _ \<Rightarrow> None)"

definition exponentPart :: "string \<Rightarrow> int option" where
  "exponentPart s =
     (case s of
        [] \<Rightarrow> Some 0
      | c # t \<Rightarrow>
          if c = CHR ''e'' \<or> c = CHR ''E'' then
            (case t of
               [] \<Rightarrow> None
             | d # u \<Rightarrow>
                 if d = CHR ''+'' then map_option int (nonEmptyDigits 10 u)
                 else if d = CHR ''-'' then map_option (\<lambda>n. - int n) (nonEmptyDigits 10 u)
                 else map_option int (nonEmptyDigits 10 t))
          else None)"

definition scale10 :: "rat \<Rightarrow> int \<Rightarrow> rat" where
  "scale10 q e = (if 0 \<le> e then q * 10 ^ nat e else q / 10 ^ nat (- e))"

definition strUnsignedDecimalLiteral :: "string \<Rightarrow> jsnum" where
  "strUnsignedDecimalLiteral s =
     (if s = ''Infinity'' then PosInfinity
      else
        let ip = takeWhile isDecimalDigit s;
            r1 = dropWhile isDecimalDigit s;
            fp = (case r1 of [] \<Rightarrow> [] | c # t \<Rightarrow>
                    if c = CHR ''.'' then takeWhile isDecimalDigit t else []);
            r2 = (case r1 of [] \<Rightarrow> [] | c # t \<Rightarrow>
                    if c = CHR ''.'' then dropWhile isDecimalDigit t else r1)
        in if ip = [] \<and> fp = [] then NaN
           else
             (case (digitsValue 10 ip 0, digitsValue 10 fp 0, exponentPart r2) of
                (Some i, Some f, Some e) \<Rightarrow>
                  Finite (scale10 (of_nat i + of_nat f / 10 ^ length fp) e)
              | _ \<Rightarrow> NaN))"

definition negate :: "jsnum \<Rightarrow> jsnum" where
  "negate n =
     (case n of
        NaN \<Rightarrow> NaN
      | PosInfinity \<Rightarrow> NegInfinity
      | NegInfinity \<Rightarrow> PosInfinity
      | Finite q \<Rightarrow> Finite (- q))"

definition strDecimalLiteral :: "string \<Rightarrow> jsnum" where
  "strDecimalLiteral s =
     (case s of
        [] \<Rightarrow> NaN
      | c # t \<Rightarrow>
          if c = CHR ''+'' then strUnsignedDecimalLiteral t
          else if c = CHR ''-'' then negate (strUnsignedDecimalLiteral t)
          else strUnsignedDecimalLiteral s)"

definition toNumber :: "string \<Rightarrow> jsnum" where
  "toNumber s =
     (let t = trimString s in
      if t = [] then Finite 0
      else
        (case nonDecimalIntegerLiteral t of
           Some n \<Rightarrow> Finite (of_nat n)
         | None \<Rightarrow> strDecimalLiteral t))"

section \<open>Actions and their declared parameters\<close>

datatype ActionParameterType = SELECT | NUMBER

text \<open>One entry of \<open>ActionParameters\<close>: the fields \<open>type\<close>, \<open>values\<close>, \<open>defaultValue\<close>.\<close>

record parameter_declaration =
  type_of_parameter :: ActionParameterType
  values_of_parameter :: "string list"
  defaultValue :: string

text \<open>
  \<open>ActionParameters\<close> is an object; \<open>Object.entries\<close> lists its own properties in order, so
  it is kept as the list of its entries. The object built for \<open>init\<close> is a list of entries
  too: assigning a property that exists keeps its place, a new one goes last.
\<close>

type_synonym ActionParameters = "(string \<times> parameter_declaration) list"

text \<open>
  The callback of \<open>reduce\<close> in the parameter resolution of \<open>runSingleFrameChain\<close>.
  \<open>setupValues\<close> is \<open>actionParameters[idx]\<close>: \<open>None\<close> when the array has no such
  element, and then \<open>Object.hasOwn\<close> raises a TypeError.
\<close>

definition resolveParameter ::
  "(string \<rightharpoonup> string) option \<Rightarrow> (string \<times> jsval) list \<Rightarrow> string \<times> parameter_declaration
     \<Rightarrow> error + (string \<times> jsval) list" where
  "resolveParameter setupValues acc entry =
     (case setupValues of
        None \<Rightarrow> Inl (TypeError ''Cannot convert undefined or null to object'')
      | Some given \<Rightarrow>
          let name = fst entry;
              chosen = (case given name of Some v \<Rightarrow> v | None \<Rightarrow> defaultValue (snd entry))
          in if type_of_parameter (snd entry) = NUMBER
             then Inr (AList.update name (JNum (toNumber chosen)) acc)
             else Inr (AList.update name (JStr chosen) acc))"

fun reduceParameters ::
  "(string \<rightharpoonup> string) option \<Rightarrow> ActionParameters \<Rightarrow> (string \<times> jsval) list
     \<Rightarrow> error + (string \<times> jsval) list" where
  "reduceParameters setupValues [] acc = Inr acc"
| "reduceParameters setupValues (entry # rest) acc =
     (case resolveParameter setupValues acc entry of
        Inl e \<Rightarrow> Inl e
      | Inr acc' \<Rightarrow> reduceParameters setupValues rest acc')"

definition elementAt :: "'a list \<Rightarrow> nat \<Rightarrow> 'a option" where
  "elementAt xs i = (if i < length xs then Some (xs ! i) else None)"

text \<open>What the callback of \<open>actionsChain.map\<close> passes to \<open>init\<close> for the action at \<open>idx\<close>.\<close>

definition resolveParameters ::
  "ActionParameters option \<Rightarrow> (string \<rightharpoonup> string) list \<Rightarrow> nat \<Rightarrow> error + (string \<times> jsval) list" where
  "resolveParameters declaredParameters actionParameters idx =
     (case declaredParameters of
        None \<Rightarrow> Inr []
      | Some declared \<Rightarrow> reduceParameters (elementAt actionParameters idx) declared [])"

section \<open>Shapes, collections and the collaborators of a run\<close>

text \<open>
  A serialized shape: the client identifier, the server identifier (the property \<open>id\<close>,
  \<open>Undefined\<close> when the object has none), the frame it is drawn on, and the fields the
  pipeline never looks at.
\<close>

record 'p shape =
  clientID :: jsval
  id_of_shape :: jsval
  frame_of_shape :: int
  payload :: 'p

text \<open>\<open>omit(shape, 'id')\<close>: a copy of the object without the property \<open>id\<close>.\<close>

definition omit_id :: "'p shape \<Rightarrow> 'p shape" where
  "omit_id s = s\<lparr>id_of_shape := Undefined\<rparr>"

record ('p, 'o) SerializedCollection =
  shapes :: "'p shape list"
  tracks :: "'o list"
  tags :: "'o list"

datatype ObjectType = SHAPE | TRACK | TAG

text \<open>What the pipeline reads of an \<open>ObjectState\<close>: \<open>objectType\<close> and \<open>clientID\<close>.\<close>

record ObjectState =
  objectType :: ObjectType
  clientID_of_state :: jsval

record frame_info =
  width :: int
  height :: int
  number :: int

record frame_data = frame_info +
  deleted :: bool

record 'p SingleFrameActionInput =
  collection :: "'p shape list"
  frameData :: frame_info

text \<open>
  An action object: its getters and methods, and the state the methods work on. A getter
  or method that throws (as all of \<open>BaseSingleFrameAction\<close> do) returns \<open>Inl\<close>; a method
  that fails leaves the state as it was.
\<close>

record ('s, 'p) action =
  name :: "error + string"
  parameters :: "error + ActionParameters option"
  init :: "'s \<Rightarrow> (string \<times> jsval) list \<Rightarrow> error + 's"
  destroy :: "'s \<Rightarrow> error + 's"
  run :: "'s \<Rightarrow> 'p SingleFrameActionInput \<Rightarrow> error + 's \<times> 'p shape list"
  state :: 's

definition BaseSingleFrameAction :: "'s \<Rightarrow> ('s, 'p) action" where
  "BaseSingleFrameAction s =
     \<lparr> name = Inl (Error ''Method not implemented''),
       parameters = Inl (Error ''Method not implemented''),
       init = (\<lambda>_ _. Inl (Error ''Method not implemented'')),
       destroy = (\<lambda>_. Inl (Error ''Method not implemented'')),
       run = (\<lambda>_ _. Inl (Error ''Method not implemented'')),
       state = s \<rparr>"

definition RemoveFilteredShapes :: "'s \<Rightarrow> ('s, 'p) action" where
  "RemoveFilteredShapes s =
     \<lparr> name = Inr ''Remove filtered shapes'',
       parameters = Inr None,
       init = (\<lambda>st _. Inr st),
       destroy = (\<lambda>st. Inr st),
       run = (\<lambda>st _. Inr (st, [])),
       state = s \<rparr>"

section \<open>The registry\<close>

text \<open>A value handed to \<open>registerAction\<close> passes \<open>instanceof BaseSingleFrameAction\<close> or not.\<close>

datatype ('s, 'p) candidate = NotAnAction | Instance "('s, 'p) action"

fun actionNames :: "('s, 'p) action list \<Rightarrow> error + string list" where
  "actionNames [] = Inr []"
| "actionNames (a # rest) =
     (case name a of
        Inl e \<Rightarrow> Inl e
      | Inr n \<Rightarrow> (case actionNames rest of Inl e \<Rightarrow> Inl e | Inr ns \<Rightarrow> Inr (n # ns)))"

definition listActions :: "('s, 'p) action list \<Rightarrow> ('s, 'p) action list" where
  "listActions registeredActions = registeredActions"

text \<open>
  \<open>registerAction\<close> on the module's array \<open>registeredActions\<close>: the array after the call,
  and the exception thrown, if any.
\<close>

definition registerAction ::
  "('s, 'p) candidate \<Rightarrow> ('s, 'p) action list \<Rightarrow> ('s, 'p) action list \<times> error option" where
  "registerAction cand registeredActions =
     (case cand of
        NotAnAction \<Rightarrow>
          (registeredActions,
           Some (ArgumentError ''Provided action is not instance of BaseSingleFrameAction''))
      | Instance a \<Rightarrow>
          (case name a of
             Inl e \<Rightarrow> (registeredActions, Some e)
           | Inr n \<Rightarrow>
               (case actionNames registeredActions of
                  Inl e \<Rightarrow> (registeredActions, Some e)
                | Inr names \<Rightarrow>
                    if n \<in> set names
                    then (registeredActions,
                          Some (ArgumentError (''Action name must be unique. Name '' @ [CHR 0x22]
                                  @ n @ [CHR 0x22] @ '' is already exists'')))
                    else (registeredActions @ [a], None))))"

text \<open>The module registers the built-in action when it is loaded.\<close>

definition initialRegistry :: "'s \<Rightarrow> ('s, 'p) action list" where
  "initialRegistry s = fst (registerAction (Instance (RemoveFilteredShapes s)) [])"

section \<open>The run\<close>

text \<open>
  The session handle with the functions of other modules that take it: the logger, the
  frame provider, \<open>getAnnotations\<close> (with the filters), the export of \<open>getCollection\<close>,
  the store's \<open>clear\<close> and \<open>import\<close>, the clearing of the actions history and the closing
  of the logged event. A call that throws returns the error.
\<close>

record ('p, 'o) session =
  logger_log :: "int \<Rightarrow> int \<Rightarrow> string \<Rightarrow> error option"
  frames_get :: "int \<Rightarrow> error + frame_data"
  getAnnotations :: "int \<Rightarrow> string list \<Rightarrow> error + ObjectState list"
  getCollection_export :: "error + ('p, 'o) SerializedCollection"
  annotations_clear :: "error option"
  actions_clear :: "error option"
  annotations_import :: "('p, 'o) SerializedCollection \<Rightarrow> error option"
  event_close :: "error option"

text \<open>The places where \<open>cancelled()\<close> is called; the caller's predicate may answer each differently.\<close>

datatype checkpoint = AfterInitialization | AfterFrame int | BeforeCommit

text \<open>
  The calls a run makes on the logger, on the throttled progress wrapper, on the
  actions' \<open>init\<close> and \<open>destroy\<close> (by position in the chain) and on the store, in order.
  A call is listed whether it returns or throws. The throttle hands a selection of the
  wrapper's calls on to \<open>onProgress\<close>, the last one among them; which ones depends on the
  clock, which is not modelled, and neither are the pauses of \<open>showMessageWithPause\<close>.
  \<open>onProgress\<close> and \<open>cancelled\<close> are taken not to throw.
\<close>

datatype ('p, 'o) effect =
    LoggerLog int int string
  | OnProgress string int
  | Init nat "(string \<times> jsval) list"
  | Destroy nat
  | AnnotationsClear
  | ActionsClear
  | AnnotationsImport "('p, 'o) SerializedCollection"
  | EventClose

fun join :: "string \<Rightarrow> string list \<Rightarrow> string" where
  "join sep [] = []"
| "join sep [x] = x"
| "join sep (x # y # rest) = x @ sep @ join sep (y # rest)"

text \<open>
  \<open>Promise.all(actionsChain.map(...))\<close> of the initialization. The callback throws when the
  getter \<open>parameters\<close> or \<open>Object.hasOwn\<close> does, which ends \<open>map\<close> at once; otherwise it
  calls \<open>init\<close>, and every action's \<open>init\<close> is called before the first rejection is seen.
  Of several rejections the one of the earliest action is reported. The result lists the
  calls of \<open>init\<close>, each with the position of the action and the parameters passed.
\<close>

datatype init_outcome = Fulfilled | Rejected error | Thrown error

fun initActions ::
  "(string \<rightharpoonup> string) list \<Rightarrow> nat \<Rightarrow> ('s, 'p) action list
     \<Rightarrow> (nat \<times> (string \<times> jsval) list) list \<times> ('s, 'p) action list \<times> init_outcome" where
  "initActions actionParameters idx [] = ([], [], Fulfilled)"
| "initActions actionParameters idx (a # rest) =
     (case parameters a of
        Inl e \<Rightarrow> ([], a # rest, Thrown e)
      | Inr declaredParameters \<Rightarrow>
          (case resolveParameters declaredParameters actionParameters idx of
             Inl e \<Rightarrow> ([], a # rest, Thrown e)
           | Inr ps \<Rightarrow>
               (case initActions actionParameters (Suc idx) rest of
                  (inits, rest', later) \<Rightarrow>
                    (case init a (state a) ps of
                       Inl e \<Rightarrow>
                         ((idx, ps) # inits, a # rest',
                          (case later of Thrown e' \<Rightarrow> Thrown e' | _ \<Rightarrow> Rejected e))
                     | Inr st \<Rightarrow> ((idx, ps) # inits, a\<lparr>state := st\<rparr> # rest', later)))))"

text \<open>
  \<open>Promise.all(actionsChain.map((action) => action.destroy()))\<close>: every \<open>destroy\<close> is
  called; the result lists the positions called, in order.
\<close>

fun destroyActions ::
  "nat \<Rightarrow> ('s, 'p) action list \<Rightarrow> nat list \<times> ('s, 'p) action list \<times> error option" where
  "destroyActions idx [] = ([], [], None)"
| "destroyActions idx (a # rest) =
     (case destroyActions (Suc idx) rest of
        (destroys, rest', later) \<Rightarrow>
          (case destroy a (state a) of
             Inl e \<Rightarrow> (idx # destroys, a # rest', Some e)
           | Inr st \<Rightarrow> (idx # destroys, a\<lparr>state := st\<rparr> # rest', later)))"

text \<open>The loop \<open>for await (const action of actionsChain)\<close> on one frame.\<close>

fun runChainOnFrame ::
  "frame_info \<Rightarrow> ('s, 'p) action list \<Rightarrow> 'p shape list
     \<Rightarrow> ('s, 'p) action list \<times> (error + 'p shape list)" where
  "runChainOnFrame info [] frameCollection = ([], Inr frameCollection)"
| "runChainOnFrame info (a # rest) frameCollection =
     (case run a (state a) \<lparr>collection = frameCollection, frameData = info\<rparr> of
        Inl e \<Rightarrow> (a # rest, Inl e)
      | Inr (st, out) \<Rightarrow>
          (case runChainOnFrame info rest out of
             (rest', r) \<Rightarrow> (a\<lparr>state := st\<rparr> # rest', r)))"

text \<open>The \<open>reduce\<close> over the states of a frame: the client identifiers of the shapes.\<close>

definition frameCollectionIDs :: "ObjectState list \<Rightarrow> jsval list" where
  "frameCollectionIDs states =
     map clientID_of_state (filter (\<lambda>val. objectType val = SHAPE) states)"

text \<open>
  \<open>Math.ceil(+(((frame - frameFrom) / totalFrames) * 100))\<close>. The division and the
  multiplication are on doubles: \<open>rounding\<close> is the rounding of a real result to a double,
  left open.
\<close>

definition progressOf :: "(rat \<Rightarrow> rat) \<Rightarrow> int \<Rightarrow> int \<Rightarrow> int \<Rightarrow> int" where
  "progressOf rounding frameFrom totalFrames frame =
     \<lceil>rounding (rounding (of_int (frame - frameFrom) / of_int totalFrames) * 100)\<rceil>"

datatype ('s, 'p) loop_result =
    LoopCompleted "('s, 'p) action list" "'p shape list" "jsval list"
  | LoopCancelled "('s, 'p) action list"
  | LoopFailed "('s, 'p) action list" error

text \<open>
  The loop over the frames, from the frames still to visit, the chain, and
  \<open>handledCollection.shapes\<close> and \<open>modifiedCollectionIDs.shapes\<close> as they stand.
\<close>

fun iterateFrames ::
  "(rat \<Rightarrow> rat) \<Rightarrow> ('p, 'o) session \<Rightarrow> string list \<Rightarrow> (checkpoint \<Rightarrow> bool) \<Rightarrow> int \<Rightarrow> int
     \<Rightarrow> 'p shape list \<Rightarrow> int list \<Rightarrow> ('s, 'p) action list \<Rightarrow> 'p shape list \<Rightarrow> jsval list
     \<Rightarrow> ('p, 'o) effect list \<times> ('s, 'p) loop_result" where
  "iterateFrames rounding instance filters cancelled frameFrom totalFrames exported []
     chain handled modified = ([], LoopCompleted chain handled modified)"
| "iterateFrames rounding instance filters cancelled frameFrom totalFrames exported (frame # later)
     chain handled modified =
     (case frames_get instance frame of
        Inl e \<Rightarrow> ([], LoopFailed chain e)
      | Inr fd \<Rightarrow>
          if deleted fd
          then iterateFrames rounding instance filters cancelled frameFrom totalFrames exported
                 later chain handled modified
          else
            (case getAnnotations instance frame filters of
               Inl e \<Rightarrow> ([], LoopFailed chain e)
             | Inr states \<Rightarrow>
                 let ids = frameCollectionIDs states;
                     frameCollection = filter (\<lambda>s. clientID s \<in> set ids) exported
                 in (case runChainOnFrame (frame_info.truncate fd) chain frameCollection of
                       (chain', Inl e) \<Rightarrow> ([], LoopFailed chain' e)
                     | (chain', Inr result) \<Rightarrow>
                         let report = OnProgress ''Actions are running''
                                        (progressOf rounding frameFrom totalFrames frame)
                         in if cancelled (AfterFrame frame) then ([report], LoopCancelled chain')
                            else
                              (case iterateFrames rounding instance filters cancelled frameFrom
                                      totalFrames exported later chain'
                                      (handled @ map omit_id result) (modified @ ids) of
                                 (effs, r) \<Rightarrow> (report # effs, r)))))"

text \<open>The carry-over pass and the commit: what follows the last cancellation check.\<close>

definition carryOver :: "'p shape list \<Rightarrow> jsval list \<Rightarrow> 'p shape list" where
  "carryOver exported modified =
     filter (\<lambda>s. isInteger (clientID s) \<and> clientID s \<notin> set modified) exported"

definition commit ::
  "('p, 'o) session \<Rightarrow> ('p, 'o) SerializedCollection \<Rightarrow> 'p shape list \<Rightarrow> jsval list
     \<Rightarrow> ('p, 'o) effect list \<times> error option" where
  "commit instance exportedCollection handled modified =
     (let imported = \<lparr> shapes = handled @ carryOver (shapes exportedCollection) modified,
                       tracks = tracks exportedCollection,
                       tags = tags exportedCollection \<rparr>
      in case annotations_clear instance of
           Some e \<Rightarrow> ([AnnotationsClear], Some e)
         | None \<Rightarrow>
             (case actions_clear instance of
                Some e \<Rightarrow> ([AnnotationsClear, ActionsClear], Some e)
              | None \<Rightarrow>
                  (case annotations_import instance imported of
                     Some e \<Rightarrow> ([AnnotationsClear, ActionsClear, AnnotationsImport imported], Some e)
                   | None \<Rightarrow>
                       ([AnnotationsClear, ActionsClear, AnnotationsImport imported, EventClose],
                        event_close instance))))"

text \<open>The body of \<open>try\<close>: the calls made, the chain as the body leaves it, the exception if any.\<close>

definition tryBlock ::
  "(rat \<Rightarrow> rat) \<Rightarrow> ('p, 'o) session \<Rightarrow> ('s, 'p) action list \<Rightarrow> (string \<rightharpoonup> string) list
     \<Rightarrow> int \<Rightarrow> int \<Rightarrow> string list \<Rightarrow> (checkpoint \<Rightarrow> bool)
     \<Rightarrow> ('p, 'o) effect list \<times> ('s, 'p) action list \<times> error option" where
  "tryBlock rounding instance actionsChain actionParameters frameFrom frameTo filters cancelled =
     (let started = OnProgress ''Actions initialization'' 0 in
      if cancelled AfterInitialization then ([started], actionsChain, None)
      else
        (case initActions actionParameters 0 actionsChain of
           (inits, chain1, Thrown e) \<Rightarrow> (started # map (\<lambda>(i, ps). Init i ps) inits, chain1, Some e)
         | (inits, chain1, Rejected e) \<Rightarrow> (started # map (\<lambda>(i, ps). Init i ps) inits, chain1, Some e)
         | (inits, chain1, Fulfilled) \<Rightarrow>
             (case getCollection_export instance of
                Inl e \<Rightarrow> (started # map (\<lambda>(i, ps). Init i ps) inits, chain1, Some e)
              | Inr exportedCollection \<Rightarrow>
                  let totalFrames = frameTo - frameFrom + 1 in
                  (case iterateFrames rounding instance filters cancelled frameFrom totalFrames
                          (shapes exportedCollection) [frameFrom..frameTo] chain1 [] [] of
                     (reports, LoopFailed chain2 e) \<Rightarrow>
                       (started # map (\<lambda>(i, ps). Init i ps) inits @ reports, chain2, Some e)
                   | (reports, LoopCancelled chain2) \<Rightarrow>
                       (started # map (\<lambda>(i, ps). Init i ps) inits @ reports, chain2, None)
                   | (reports, LoopCompleted chain2 handled modified) \<Rightarrow>
                       let committing = OnProgress ''Commiting handled objects'' 100 in
                       if cancelled BeforeCommit
                       then (started # map (\<lambda>(i, ps). Init i ps) inits @ reports @ [committing],
                             chain2, None)
                       else
                         (case commit instance exportedCollection handled modified of
                            (calls, r) \<Rightarrow>
                              (started # map (\<lambda>(i, ps). Init i ps) inits @ reports
                                 @ [committing] @ calls, chain2, r))))))"

text \<open>
  \<open>runSingleFrameChain\<close>: the logging of the event, outside \<open>try\<close>; the body; and the
  \<open>finally\<close> block, whose exception replaces the body's.
\<close>

definition runSingleFrameChain ::
  "(rat \<Rightarrow> rat) \<Rightarrow> ('p, 'o) session \<Rightarrow> ('s, 'p) action list \<Rightarrow> (string \<rightharpoonup> string) list
     \<Rightarrow> int \<Rightarrow> int \<Rightarrow> string list \<Rightarrow> (checkpoint \<Rightarrow> bool)
     \<Rightarrow> ('p, 'o) effect list \<times> ('s, 'p) action list \<times> error option" where
  "runSingleFrameChain rounding instance actionsChain actionParameters frameFrom frameTo filters
     cancelled =
     (case actionNames actionsChain of
        Inl e \<Rightarrow> ([], actionsChain, Some e)
      | Inr names \<Rightarrow>
          let logged = LoggerLog frameFrom frameTo (join '' => '' names) in
          (case logger_log instance frameFrom frameTo (join '' => '' names) of
             Some e \<Rightarrow> ([logged], actionsChain, Some e)
           | None \<Rightarrow>
               (case tryBlock rounding instance actionsChain actionParameters frameFrom frameTo
                       filters cancelled of
                  (calls, chain1, r) \<Rightarrow>
                    (case destroyActions 0 chain1 of
                       (destroys, chain2, d) \<Rightarrow>
                         (logged # calls @ [OnProgress ''Finalizing'' 100] @ map Destroy destroys,
                          chain2,
                          (case d of Some e \<Rightarrow> Some e | None \<Rightarrow> r))))))"

definition runActions ::
  "(rat \<Rightarrow> rat) \<Rightarrow> ('p, 'o) session \<Rightarrow> ('s, 'p) action list \<Rightarrow> (string \<rightharpoonup> string) list
     \<Rightarrow> int \<Rightarrow> int \<Rightarrow> string list \<Rightarrow> (checkpoint \<Rightarrow> bool)
     \<Rightarrow> ('p, 'o) effect list \<times> ('s, 'p) action list \<times> error option" where
  "runActions = runSingleFrameChain"

section \<open>Reading a run\<close>

text \<open>The calls of the progress wrapper, of \<open>destroy\<close> and of the store among the calls of a run.\<close>

fun progressCalls :: "('p, 'o) effect list \<Rightarrow> (string \<times> int) list" where
  "progressCalls [] = []"
| "progressCalls (OnProgress m p # rest) = (m, p) # progressCalls rest"
| "progressCalls (_ # rest) = progressCalls rest"

fun destroyCalls :: "('p, 'o) effect list \<Rightarrow> nat list" where
  "destroyCalls [] = []"
| "destroyCalls (Destroy i # rest) = i # destroyCalls rest"
| "destroyCalls (_ # rest) = destroyCalls rest"

fun storeCalls :: "('p, 'o) effect list \<Rightarrow> ('p, 'o) effect list" where
  "storeCalls [] = []"
| "storeCalls (AnnotationsClear # rest) = AnnotationsClear # storeCalls rest"
| "storeCalls (ActionsClear # rest) = ActionsClear # storeCalls rest"
| "storeCalls (AnnotationsImport c # rest) = AnnotationsImport c # storeCalls rest"
| "storeCalls (_ # rest) = storeCalls rest"

text \<open>
  The identifiers a frame adds to \<open>modifiedCollectionIDs\<close>: those of the shape states the
  filter shows on it, and none when the frame is deleted.
\<close>

definition visibleIDs :: "('p, 'o) session \<Rightarrow> string list \<Rightarrow> int \<Rightarrow> jsval list" where
  "visibleIDs instance filters f =
     (case frames_get instance f of
        Inl e \<Rightarrow> []
      | Inr fd \<Rightarrow>
          if deleted fd then []
          else (case getAnnotations instance f filters of
                  Inl e \<Rightarrow> []
                | Inr states \<Rightarrow> frameCollectionIDs states))"

definition handledIDs :: "('p, 'o) session \<Rightarrow> string list \<Rightarrow> int list \<Rightarrow> jsval list" where
  "handledIDs instance filters fs = concat (map (visibleIDs instance filters) fs)"


text \<open>
  Modelled from the spec: the annotation store, which is not among the source files. Its
  \<open>clear\<close> removes the current annotations and its \<open>import\<close> replaces them by the
  collection given; no other call of a run changes them.
\<close>

fun storeAfter ::
  "('p, 'o) effect list \<Rightarrow> ('p, 'o) SerializedCollection \<Rightarrow> ('p, 'o) SerializedCollection" where
  "storeAfter [] st = st"
| "storeAfter (AnnotationsClear # rest) st = storeAfter rest \<lparr>shapes = [], tracks = [], tags = []\<rparr>"
| "storeAfter (AnnotationsImport c # rest) st = storeAfter rest c"
| "storeAfter (_ # rest) st = storeAfter rest st"



section \<open>Example inputs\<close>

text \<open>
  A shape with a given client identifier, server identifier and frame; a session with the
  given deleted frames, whose states on a frame are the shapes of the snapshot drawn on it
  and whose collaborators never fail; an action with one numeric parameter that returns its
  input; the exact rounding; and the predicate of a caller who never cancels.
\<close>

definition exactRounding :: "rat \<Rightarrow> rat" where
  "exactRounding q = q"

definition neverCancelled :: "checkpoint \<Rightarrow> bool" where
  "neverCancelled cp = False"

definition exampleShape :: "jsval \<Rightarrow> jsval \<Rightarrow> int \<Rightarrow> unit shape" where
  "exampleShape cid sid f = \<lparr>clientID = cid, id_of_shape = sid, frame_of_shape = f, payload = ()\<rparr>"

definition exampleSession :: "int list \<Rightarrow> unit shape list \<Rightarrow> (unit, unit) session" where
  "exampleSession deletedFrames snapshot =
     \<lparr> logger_log = (\<lambda>_ _ _. None),
       frames_get = (\<lambda>f. Inr \<lparr>width = 640, height = 480, number = f, deleted = (f \<in> set deletedFrames)\<rparr>),
       getAnnotations = (\<lambda>f _. Inr (map (\<lambda>s. \<lparr>objectType = SHAPE, clientID_of_state = clientID s\<rparr>)
                                     (filter (\<lambda>s. frame_of_shape s = f) snapshot))),
       getCollection_export = Inr \<lparr>shapes = snapshot, tracks = [], tags = []\<rparr>,
       annotations_clear = None,
       actions_clear = None,
       annotations_import = (\<lambda>_. None),
       event_close = None \<rparr>"

definition exampleNumericAction :: "(unit, unit) action" where
  "exampleNumericAction =
     \<lparr> name = Inr ''Threshold'',
       parameters = Inr (Some [(''n'', \<lparr>type_of_parameter = NUMBER, values_of_parameter = [],
                                      defaultValue = ''5''\<rparr>)]),
       init = (\<lambda>st _. Inr st),
       destroy = (\<lambda>st. Inr st),
       run = (\<lambda>st input. Inr (st, collection input)),
       state = () \<rparr>"



section \<open>Properties\<close>

subsection \<open>Reading the calls\<close>

lemma progressCalls_append [simp]: "progressCalls (xs @ ys) = progressCalls xs @ progressCalls ys"
  by (induction xs rule: progressCalls.induct) simp_all

lemma destroyCalls_append [simp]: "destroyCalls (xs @ ys) = destroyCalls xs @ destroyCalls ys"
  by (induction xs rule: destroyCalls.induct) simp_all

lemma storeCalls_append [simp]: "storeCalls (xs @ ys) = storeCalls xs @ storeCalls ys"
  by (induction xs rule: storeCalls.induct) simp_all

lemma calls_of_inits [simp]:
  "progressCalls (map (\<lambda>(i, ps). Init i ps) inits) = []"
  "destroyCalls (map (\<lambda>(i, ps). Init i ps) inits) = []"
  "storeCalls (map (\<lambda>(i, ps). Init i ps) inits) = []"
  by (induction inits) auto

lemma calls_of_destroys [simp]:
  "progressCalls (map Destroy ds) = []"
  "destroyCalls (map Destroy ds) = ds"
  "storeCalls (map Destroy ds) = []"
  by (induction ds) auto

lemma calls_of_reports [simp]:
  "progressCalls (map (\<lambda>f. OnProgress m (g f)) fs) = map (\<lambda>f. (m, g f)) fs"
  "destroyCalls (map (\<lambda>f. OnProgress m (g f)) fs) = []"
  "storeCalls (map (\<lambda>f. OnProgress m (g f)) fs) = []"
  by (induction fs) auto

lemma import_in_storeCalls:
  "AnnotationsImport c \<in> set xs \<longleftrightarrow> AnnotationsImport c \<in> set (storeCalls xs)"
  by (induction xs rule: storeCalls.induct) auto

subsection \<open>The registry\<close>

lemma actionNames_append:
  "actionNames (xs @ [a]) =
     (case actionNames xs of
        Inl e \<Rightarrow> Inl e
      | Inr ns \<Rightarrow> (case name a of Inl e \<Rightarrow> Inl e | Inr n \<Rightarrow> Inr (ns @ [n])))"
  by (induction xs) (auto split: sum.splits)

subsection \<open>The resolution of the parameters\<close>





text \<open>
  C6. \<open>registerAction\<close> throws an ArgumentError when the candidate is not an instance of
  the base class or when its name is, character for character, that of a registered action;
  whenever it throws, the registry is what it was, so of two actions with one name only
  the first stays; when it succeeds the action is appended after the registered ones.
\<close>

theorem registerAction_rejects_or_appends:
  "(\<exists>m. registerAction NotAnAction reg = (reg, Some (ArgumentError m)))
   \<and> (name a = Inr n \<and> actionNames reg = Inr names \<and> n \<in> set names
        \<longrightarrow> (\<exists>m. registerAction (Instance a) reg = (reg, Some (ArgumentError m))))
   \<and> (name a = Inr n \<and> actionNames reg = Inr names \<and> n \<notin> set names
        \<longrightarrow> registerAction (Instance a) reg = (reg @ [a], None))
   \<and> (snd (registerAction cand reg) \<noteq> None \<longrightarrow> fst (registerAction cand reg) = reg)
   \<and> (name a = Inr n \<and> name b = Inr n \<and> snd (registerAction (Instance a) reg) = None
        \<longrightarrow> fst (registerAction (Instance a) reg) = reg @ [a]
            \<and> (\<exists>m. registerAction (Instance b) (reg @ [a]) = (reg @ [a], Some (ArgumentError m))))"
proof (intro conjI impI)
  show "\<exists>m. registerAction NotAnAction reg = (reg, Some (ArgumentError m))"
    by (simp add: registerAction_def)
  show "\<exists>m. registerAction (Instance a) reg = (reg, Some (ArgumentError m))"
    if "name a = Inr n \<and> actionNames reg = Inr names \<and> n \<in> set names"
    using that by (simp add: registerAction_def)
  show "registerAction (Instance a) reg = (reg @ [a], None)"
    if "name a = Inr n \<and> actionNames reg = Inr names \<and> n \<notin> set names"
    using that by (simp add: registerAction_def)
  show "fst (registerAction cand reg) = reg" if "snd (registerAction cand reg) \<noteq> None"
    using that by (auto simp: registerAction_def split: candidate.splits sum.splits if_splits)
  assume h: "name a = Inr n \<and> name b = Inr n \<and> snd (registerAction (Instance a) reg) = None"
  then obtain ns where ns: "actionNames reg = Inr ns" and r: "fst (registerAction (Instance a) reg) = reg @ [a]"
    by (auto simp: registerAction_def split: sum.splits if_splits)
  show "fst (registerAction (Instance a) reg) = reg @ [a]" by (rule r)
  have "actionNames (reg @ [a]) = Inr (ns @ [n])"
    using ns h by (simp add: actionNames_append)
  then show "\<exists>m. registerAction (Instance b) (reg @ [a]) = (reg @ [a], Some (ArgumentError m))"
    using h by (simp add: registerAction_def)
qed

theorem registerAction_rejects_or_appends_witness:
  "registerAction (Instance (RemoveFilteredShapes ())) ([] :: (unit, unit) action list)
     = ([RemoveFilteredShapes ()], None)
   \<and> (\<exists>m. registerAction (Instance (RemoveFilteredShapes ())) [RemoveFilteredShapes () :: (unit, unit) action]
          = ([RemoveFilteredShapes ()], Some (ArgumentError m)))
   \<and> (\<exists>m. registerAction (Instance (RemoveFilteredShapes ())) [exampleNumericAction, RemoveFilteredShapes ()]
          = ([exampleNumericAction, RemoveFilteredShapes ()], Some (ArgumentError m)))
   \<and> fst (registerAction NotAnAction [exampleNumericAction]) = [exampleNumericAction]"
proof -
  let ?r = "RemoveFilteredShapes () :: (unit, unit) action"
  have n: "name ?r = Inr ''Remove filtered shapes''" by (simp add: RemoveFilteredShapes_def)
  have e: "actionNames ([] :: (unit, unit) action list) = Inr []" by simp
  have k: "actionNames [exampleNumericAction, ?r] = Inr [''Threshold'', ''Remove filtered shapes'']"
    by (simp add: exampleNumericAction_def RemoveFilteredShapes_def)
  note t1 = registerAction_rejects_or_appends
    [where reg = "[]" and a = ?r and b = ?r and n = "''Remove filtered shapes''" and names = "[]"
       and cand = NotAnAction]
  note t2 = registerAction_rejects_or_appends
    [where reg = "[exampleNumericAction, ?r]" and a = ?r and n = "''Remove filtered shapes''"
       and names = "[''Threshold'', ''Remove filtered shapes'']" and cand = NotAnAction]
  note t3 = registerAction_rejects_or_appends
    [where reg = "[exampleNumericAction]" and cand = NotAnAction]
  have s: "snd (registerAction NotAnAction [exampleNumericAction]) \<noteq> None"
    by (simp add: registerAction_def)
  from t1 n e have a1: "registerAction (Instance ?r) [] = ([?r], None)" by simp
  then have "snd (registerAction (Instance ?r) []) = None" by simp
  with t1 n have a2: "\<exists>m. registerAction (Instance ?r) [?r] = ([?r], Some (ArgumentError m))" by simp
  from t2 n k have a3: "\<exists>m. registerAction (Instance ?r) [exampleNumericAction, ?r]
          = ([exampleNumericAction, ?r], Some (ArgumentError m))" by simp
  from t3 s have a4: "fst (registerAction NotAnAction [exampleNumericAction]) = [exampleNumericAction]"
    by blast
  from a1 a2 a3 a4 show ?thesis by blast
qed




subsection \<open>The lifecycle calls and the loop over the frames\<close>




lemma iterateFrames_Cons_cases [consumes 1, case_names get_failed skipped states_failed run_failed stopped continued]:
  assumes "iterateFrames rounding instance filters cancelled frameFrom tot exported (f # fs) chain h m = (effs, r)"
  obtains
    e where "frames_get instance f = Inl e" "effs = []" "r = LoopFailed chain e"
  | fd where "frames_get instance f = Inr fd" "deleted fd"
      "iterateFrames rounding instance filters cancelled frameFrom tot exported fs chain h m = (effs, r)"
  | fd e where "frames_get instance f = Inr fd" "\<not> deleted fd"
      "getAnnotations instance f filters = Inl e" "effs = []" "r = LoopFailed chain e"
  | fd states chain1 e where "frames_get instance f = Inr fd" "\<not> deleted fd"
      "getAnnotations instance f filters = Inr states"
      "runChainOnFrame (frame_info.truncate fd) chain
         (filter (\<lambda>s. clientID s \<in> set (frameCollectionIDs states)) exported) = (chain1, Inl e)"
      "effs = []" "r = LoopFailed chain1 e"
  | fd states chain1 result where "frames_get instance f = Inr fd" "\<not> deleted fd"
      "getAnnotations instance f filters = Inr states"
      "runChainOnFrame (frame_info.truncate fd) chain
         (filter (\<lambda>s. clientID s \<in> set (frameCollectionIDs states)) exported) = (chain1, Inr result)"
      "cancelled (AfterFrame f)"
      "effs = [OnProgress ''Actions are running'' (progressOf rounding frameFrom tot f)]"
      "r = LoopCancelled chain1"
  | fd states chain1 result effs' where "frames_get instance f = Inr fd" "\<not> deleted fd"
      "getAnnotations instance f filters = Inr states"
      "runChainOnFrame (frame_info.truncate fd) chain
         (filter (\<lambda>s. clientID s \<in> set (frameCollectionIDs states)) exported) = (chain1, Inr result)"
      "\<not> cancelled (AfterFrame f)"
      "iterateFrames rounding instance filters cancelled frameFrom tot exported fs chain1
         (h @ map omit_id result) (m @ frameCollectionIDs states) = (effs', r)"
      "effs = OnProgress ''Actions are running'' (progressOf rounding frameFrom tot f) # effs'"
proof (cases "frames_get instance f")
  case (Inl e)
  with assms that(1) show ?thesis by simp
next
  case (Inr fd)
  show ?thesis
  proof (cases "deleted fd")
    case True
    with Inr assms that(2) show ?thesis by simp
  next
    case False
    show ?thesis
    proof (cases "getAnnotations instance f filters")
      case (Inl e)
      with Inr False assms that(3) show ?thesis by simp
    next
      case states: (Inr states)
      obtain chain1 res where rc:
        "runChainOnFrame (frame_info.truncate fd) chain
           (filter (\<lambda>s. clientID s \<in> set (frameCollectionIDs states)) exported) = (chain1, res)"
        by (cases "runChainOnFrame (frame_info.truncate fd) chain
           (filter (\<lambda>s. clientID s \<in> set (frameCollectionIDs states)) exported)")
      show ?thesis
      proof (cases res)
        case (Inl e)
        with Inr False states rc assms that(4) show ?thesis by (simp add: Let_def)
      next
        case result: (Inr result)
        show ?thesis
        proof (cases "cancelled (AfterFrame f)")
          case True
          with Inr False states rc result assms that(5) show ?thesis by (simp add: Let_def)
        next
          case nc: False
          obtain effs' r' where it:
            "iterateFrames rounding instance filters cancelled frameFrom tot exported fs chain1
               (h @ map omit_id result) (m @ frameCollectionIDs states) = (effs', r')"
            by (cases "iterateFrames rounding instance filters cancelled frameFrom tot exported fs chain1
               (h @ map omit_id result) (m @ frameCollectionIDs states)")
          with Inr False states rc result nc assms
          have "effs = OnProgress ''Actions are running'' (progressOf rounding frameFrom tot f) # effs'" "r = r'"
            by (simp_all add: Let_def)
          with Inr False states rc result nc it that(6) show ?thesis by simp
        qed
      qed
    qed
  qed
qed

lemma iterateFrames_reports:
  "iterateFrames rounding instance filters cancelled frameFrom tot exported fs chain h m = (effs, r) \<Longrightarrow>
     \<exists>fs'. subseq fs' fs
        \<and> effs = map (\<lambda>f. OnProgress ''Actions are running'' (progressOf rounding frameFrom tot f)) fs'"
proof (induction fs arbitrary: chain h m effs r)
  case Nil
  then have "effs = []" by auto
  then show ?case by simp
next
  case (Cons f fs)
  from Cons.prems show ?case
  proof (cases rule: iterateFrames_Cons_cases)
    case (skipped fd)
    from Cons.IH[OF skipped(3)] obtain fs' where "subseq fs' fs"
      "effs = map (\<lambda>f. OnProgress ''Actions are running'' (progressOf rounding frameFrom tot f)) fs'"
      by blast
    then show ?thesis using list_emb_Cons by blast
  next
    case (stopped fd states chain1 result)
    have "subseq [f] (f # fs)" by simp
    with stopped(6) show ?thesis by (intro exI[of _ "[f]"]) simp
  next
    case (continued fd states chain1 result effs')
    from Cons.IH[OF continued(6)] obtain fs' where fs': "subseq fs' fs"
      "effs' = map (\<lambda>f. OnProgress ''Actions are running'' (progressOf rounding frameFrom tot f)) fs'"
      by blast
    have "subseq (f # fs') (f # fs)" using fs'(1) by simp
    with fs'(2) continued(7) show ?thesis by (intro exI[of _ "f # fs'"]) simp
  qed (simp_all)
qed


lemma iterateFrames_completed:
  "iterateFrames rounding instance filters cancelled frameFrom tot exported fs chain h m
      = (effs, LoopCompleted chain' h' m') \<Longrightarrow>
     prefix h h' \<and> m' = m @ handledIDs instance filters fs
       \<and> (\<forall>f \<in> set fs. \<forall>fd. frames_get instance f = Inr fd \<longrightarrow> \<not> deleted fd
              \<longrightarrow> \<not> cancelled (AfterFrame f))"
proof (induction fs arbitrary: chain h m effs)
  case Nil
  then show ?case by (auto simp: handledIDs_def)
next
  case (Cons f fs)
  from Cons.prems show ?case
  proof (cases rule: iterateFrames_Cons_cases)
    case (skipped fd)
    from Cons.IH[OF skipped(3)] skipped(1,2) show ?thesis
      by (simp add: handledIDs_def visibleIDs_def)
  next
    case (continued fd states chain1 result effs')
    have ids: "handledIDs instance filters (f # fs) = frameCollectionIDs states @ handledIDs instance filters fs"
      using continued(1,2,3) by (simp add: handledIDs_def visibleIDs_def)
    from Cons.IH[OF continued(6)] have ih: "prefix (h @ map omit_id result) h'"
      "m' = (m @ frameCollectionIDs states) @ handledIDs instance filters fs"
      "\<forall>f \<in> set fs. \<forall>fd. frames_get instance f = Inr fd \<longrightarrow> \<not> deleted fd \<longrightarrow> \<not> cancelled (AfterFrame f)"
      by simp_all
    from ih(1) have "prefix h h'" by (rule append_prefixD)
    with ih(2,3) ids continued(1,2,5) show ?thesis by simp
  qed (simp_all)
qed

subsection \<open>The commit and the body of the run\<close>

lemma commit_calls:
  assumes "commit instance ex h m = (calls, r)"
  shows "progressCalls calls = []" and "destroyCalls calls = []"
    and "AnnotationsImport c \<in> set calls \<Longrightarrow>
           c = \<lparr>shapes = h @ carryOver (shapes ex) m, tracks = tracks ex, tags = tags ex\<rparr>"
  using assms by (auto simp: commit_def Let_def split: option.splits)

lemma tryBlock_cases [consumes 1, case_names cancelled_first init_failed export_failed loop_failed
    loop_cancelled cancelled_last committed]:
  assumes "tryBlock rounding instance chain aps frameFrom frameTo filters cancelled = (calls, chain', r)"
  obtains
    "cancelled AfterInitialization" "calls = [OnProgress ''Actions initialization'' 0]"
      "chain' = chain" "r = None"
  | inits out e where "\<not> cancelled AfterInitialization"
      "initActions aps 0 chain = (inits, chain', out)" "out = Thrown e \<or> out = Rejected e"
      "calls = OnProgress ''Actions initialization'' 0 # map (\<lambda>(i, ps). Init i ps) inits"
      "r = Some e"
  | inits e where "\<not> cancelled AfterInitialization"
      "initActions aps 0 chain = (inits, chain', Fulfilled)"
      "getCollection_export instance = Inl e"
      "calls = OnProgress ''Actions initialization'' 0 # map (\<lambda>(i, ps). Init i ps) inits"
      "r = Some e"
  | inits chain1 ex reports e where "\<not> cancelled AfterInitialization"
      "initActions aps 0 chain = (inits, chain1, Fulfilled)"
      "getCollection_export instance = Inr ex"
      "iterateFrames rounding instance filters cancelled frameFrom (frameTo - frameFrom + 1)
         (shapes ex) [frameFrom..frameTo] chain1 [] [] = (reports, LoopFailed chain' e)"
      "calls = OnProgress ''Actions initialization'' 0 # map (\<lambda>(i, ps). Init i ps) inits @ reports"
      "r = Some e"
  | inits chain1 ex reports where "\<not> cancelled AfterInitialization"
      "initActions aps 0 chain = (inits, chain1, Fulfilled)"
      "getCollection_export instance = Inr ex"
      "iterateFrames rounding instance filters cancelled frameFrom (frameTo - frameFrom + 1)
         (shapes ex) [frameFrom..frameTo] chain1 [] [] = (reports, LoopCancelled chain')"
      "calls = OnProgress ''Actions initialization'' 0 # map (\<lambda>(i, ps). Init i ps) inits @ reports"
      "r = None"
  | inits chain1 ex reports h m where "\<not> cancelled AfterInitialization"
      "initActions aps 0 chain = (inits, chain1, Fulfilled)"
      "getCollection_export instance = Inr ex"
      "iterateFrames rounding instance filters cancelled frameFrom (frameTo - frameFrom + 1)
         (shapes ex) [frameFrom..frameTo] chain1 [] [] = (reports, LoopCompleted chain' h m)"
      "cancelled BeforeCommit"
      "calls = OnProgress ''Actions initialization'' 0 # map (\<lambda>(i, ps). Init i ps) inits @ reports
                 @ [OnProgress ''Commiting handled objects'' 100]"
      "r = None"
  | inits chain1 ex reports h m stores where "\<not> cancelled AfterInitialization"
      "initActions aps 0 chain = (inits, chain1, Fulfilled)"
      "getCollection_export instance = Inr ex"
      "iterateFrames rounding instance filters cancelled frameFrom (frameTo - frameFrom + 1)
         (shapes ex) [frameFrom..frameTo] chain1 [] [] = (reports, LoopCompleted chain' h m)"
      "\<not> cancelled BeforeCommit"
      "commit instance ex h m = (stores, r)"
      "calls = OnProgress ''Actions initialization'' 0 # map (\<lambda>(i, ps). Init i ps) inits @ reports
                 @ [OnProgress ''Commiting handled objects'' 100] @ stores"
proof (cases "cancelled AfterInitialization")
  case True
  with assms that(1) show ?thesis by (simp add: tryBlock_def)
next
  case nc: False
  obtain inits chain1 out where i: "initActions aps 0 chain = (inits, chain1, out)"
    by (cases "initActions aps 0 chain")
  show ?thesis
  proof (cases out)
    case (Thrown e)
    with nc i assms that(2)[of inits out e] show ?thesis by (simp add: tryBlock_def)
  next
    case (Rejected e)
    with nc i assms that(2)[of inits out e] show ?thesis by (simp add: tryBlock_def)
  next
    case Fulfilled
    show ?thesis
    proof (cases "getCollection_export instance")
      case (Inl e)
      with nc i Fulfilled assms that(3) show ?thesis by (simp add: tryBlock_def)
    next
      case (Inr ex)
      obtain reports lr where l:
        "iterateFrames rounding instance filters cancelled frameFrom (frameTo - frameFrom + 1)
           (shapes ex) [frameFrom..frameTo] chain1 [] [] = (reports, lr)"
        by (cases "iterateFrames rounding instance filters cancelled frameFrom (frameTo - frameFrom + 1)
           (shapes ex) [frameFrom..frameTo] chain1 [] []")
      show ?thesis
      proof (cases lr)
        case (LoopFailed chain2 e)
        with nc i Fulfilled Inr l assms that(4) show ?thesis by (simp add: tryBlock_def)
      next
        case (LoopCancelled chain2)
        with nc i Fulfilled Inr l assms that(5) show ?thesis by (simp add: tryBlock_def)
      next
        case (LoopCompleted chain2 h m)
        show ?thesis
        proof (cases "cancelled BeforeCommit")
          case True
          with nc i Fulfilled Inr l LoopCompleted assms that(6) show ?thesis
            by (simp add: tryBlock_def)
        next
          case False
          obtain stores r' where c: "commit instance ex h m = (stores, r')"
            by (cases "commit instance ex h m")
          with False nc i Fulfilled Inr l LoopCompleted assms that(7) show ?thesis
            by (simp add: tryBlock_def)
        qed
      qed
    qed
  qed
qed

lemma storeAfter_no_calls: "storeCalls effs = [] \<Longrightarrow> storeAfter effs st = st"
proof (induction effs arbitrary: st)
  case Nil
  show ?case by simp
next
  case (Cons e effs)
  then show ?case by (cases e) simp_all
qed

lemma runSingleFrameChain_cases [consumes 1, case_names names_failed log_failed ran]:
  assumes "runSingleFrameChain rounding instance chain aps frameFrom frameTo filters cancelled
             = (effs, chain', r)"
  obtains
    e where "actionNames chain = Inl e" "effs = []" "chain' = chain" "r = Some e"
  | names e where "actionNames chain = Inr names"
      "logger_log instance frameFrom frameTo (join '' => '' names) = Some e"
      "effs = [LoggerLog frameFrom frameTo (join '' => '' names)]" "chain' = chain" "r = Some e"
  | names calls chain1 rb destroys d where "actionNames chain = Inr names"
      "logger_log instance frameFrom frameTo (join '' => '' names) = None"
      "tryBlock rounding instance chain aps frameFrom frameTo filters cancelled = (calls, chain1, rb)"
      "destroyActions 0 chain1 = (destroys, chain', d)"
      "effs = LoggerLog frameFrom frameTo (join '' => '' names) # calls
                @ [OnProgress ''Finalizing'' 100] @ map Destroy destroys"
      "r = (case d of Some e \<Rightarrow> Some e | None \<Rightarrow> rb)"
proof (cases "actionNames chain")
  case (Inl e)
  with assms have "effs = []" "chain' = chain" "r = Some e"
    unfolding runSingleFrameChain_def by simp_all
  with Inl show ?thesis by (rule that(1))
next
  case (Inr names)
  show ?thesis
  proof (cases "logger_log instance frameFrom frameTo (join '' => '' names)")
    case (Some e)
    with Inr assms have "effs = [LoggerLog frameFrom frameTo (join '' => '' names)]"
      "chain' = chain" "r = Some e"
      unfolding runSingleFrameChain_def by (simp_all add: Let_def)
    with Inr Some show ?thesis by (rule that(2))
  next
    case None
    obtain calls chain1 rb where t:
      "tryBlock rounding instance chain aps frameFrom frameTo filters cancelled = (calls, chain1, rb)"
      by (cases "tryBlock rounding instance chain aps frameFrom frameTo filters cancelled")
    obtain destroys chain2 d where d: "destroyActions 0 chain1 = (destroys, chain2, d)"
      by (cases "destroyActions 0 chain1")
    from Inr None t d assms have "chain2 = chain'"
      "effs = LoggerLog frameFrom frameTo (join '' => '' names) # calls
                @ [OnProgress ''Finalizing'' 100] @ map Destroy destroys"
      "r = (case d of Some e \<Rightarrow> Some e | None \<Rightarrow> rb)"
      unfolding runSingleFrameChain_def by (simp_all add: Let_def)
    with Inr None t d show ?thesis using that(3) by blast
  qed
qed



lemma tryBlock_store:
  assumes "tryBlock rounding instance chain aps frameFrom frameTo filters cancelled = (calls, chain', r)"
    and "storeCalls calls \<noteq> []"
  shows "\<exists>inits chain1 ex reports h stores.
      initActions aps 0 chain = (inits, chain1, Fulfilled)
      \<and> getCollection_export instance = Inr ex
      \<and> iterateFrames rounding instance filters cancelled frameFrom (frameTo - frameFrom + 1)
           (shapes ex) [frameFrom..frameTo] chain1 [] []
         = (reports, LoopCompleted chain' h (handledIDs instance filters [frameFrom..frameTo]))
      \<and> commit instance ex h (handledIDs instance filters [frameFrom..frameTo]) = (stores, r)
      \<and> storeCalls calls = storeCalls stores
      \<and> \<not> cancelled AfterInitialization \<and> \<not> cancelled BeforeCommit
      \<and> (\<forall>f \<in> set [frameFrom..frameTo]. \<forall>fd. frames_get instance f = Inr fd \<longrightarrow> \<not> deleted fd
              \<longrightarrow> \<not> cancelled (AfterFrame f))"
  using assms(1)
proof (cases rule: tryBlock_cases)
  case cancelled_first
  with assms(2) show ?thesis by simp
next
  case (init_failed inits out e)
  with assms(2) show ?thesis by simp
next
  case (export_failed inits e)
  with assms(2) show ?thesis by simp
next
  case (loop_failed inits chain1 ex reports e)
  from iterateFrames_reports[OF loop_failed(4)] loop_failed(5) assms(2) show ?thesis by auto
next
  case (loop_cancelled inits chain1 ex reports)
  from iterateFrames_reports[OF loop_cancelled(4)] loop_cancelled(5) assms(2) show ?thesis by auto
next
  case (cancelled_last inits chain1 ex reports h m)
  from iterateFrames_reports[OF cancelled_last(4)] cancelled_last(6) assms(2) show ?thesis by auto
next
  case (committed inits chain1 ex reports h m stores)
  from iterateFrames_completed[OF committed(4)]
  have m: "m = handledIDs instance filters [frameFrom..frameTo]"
    and nc: "\<forall>f \<in> set [frameFrom..frameTo]. \<forall>fd. frames_get instance f = Inr fd \<longrightarrow> \<not> deleted fd
              \<longrightarrow> \<not> cancelled (AfterFrame f)"
    by simp_all
  from iterateFrames_reports[OF committed(4)] committed(7)
  have "storeCalls calls = storeCalls stores" by auto
  with committed m nc show ?thesis by blast
qed




text \<open>
  C2. When the cancellation predicate answers true after the initialization, after a frame
  of the range that is not deleted, or before the commit pass, the run makes no call of
  \<open>clear\<close> or \<open>import\<close> on the store (nor of the clearing of the history), so the store's
  annotations are what they were.
\<close>

theorem cancelled_run_leaves_store:
  assumes "cancelled AfterInitialization
      \<or> (\<exists>f fd. frameFrom \<le> f \<and> f \<le> frameTo \<and> frames_get instance f = Inr fd \<and> \<not> deleted fd
                  \<and> cancelled (AfterFrame f))
      \<or> cancelled BeforeCommit"
  shows "storeCalls (fst (runSingleFrameChain rounding instance chain actionParameters
                            frameFrom frameTo filters cancelled)) = []
    \<and> storeAfter (fst (runSingleFrameChain rounding instance chain actionParameters
                            frameFrom frameTo filters cancelled)) st = st"
proof -
  obtain effs chain' r where run:
    "runSingleFrameChain rounding instance chain actionParameters frameFrom frameTo filters cancelled
       = (effs, chain', r)"
    by (cases "runSingleFrameChain rounding instance chain actionParameters frameFrom frameTo
                 filters cancelled")
  from run have "storeCalls effs = []"
  proof (cases rule: runSingleFrameChain_cases)
    case (names_failed e)
    then show ?thesis by simp
  next
    case (log_failed names e)
    then show ?thesis by simp
  next
    case (ran names calls chain1 rb destroys d)
    have "storeCalls calls = []"
    proof (rule ccontr)
      assume "storeCalls calls \<noteq> []"
      from tryBlock_store[OF ran(3) this] have
        "\<not> cancelled AfterInitialization" "\<not> cancelled BeforeCommit"
        "\<forall>f \<in> set [frameFrom..frameTo]. \<forall>fd. frames_get instance f = Inr fd \<longrightarrow> \<not> deleted fd
              \<longrightarrow> \<not> cancelled (AfterFrame f)"
        by blast+
      with assms show False by auto
    qed
    with ran(5) show ?thesis by simp
  qed
  with run show ?thesis by (simp add: storeAfter_no_calls)
qed

theorem cancelled_run_leaves_store_witness:
  "storeCalls (fst (runSingleFrameChain exactRounding
       (exampleSession [] [exampleShape (JNum (Finite 1)) Undefined 0])
       [RemoveFilteredShapes ()] [] 0 2 [] (\<lambda>c. c = AfterFrame 1))) = []
   \<and> storeAfter (fst (runSingleFrameChain exactRounding
       (exampleSession [] [exampleShape (JNum (Finite 1)) Undefined 0])
       [RemoveFilteredShapes ()] [] 0 2 [] (\<lambda>c. c = AfterFrame 1)))
       \<lparr>shapes = [exampleShape (JNum (Finite 1)) Undefined 0], tracks = [], tags = []\<rparr>
     = \<lparr>shapes = [exampleShape (JNum (Finite 1)) Undefined 0], tracks = [], tags = []\<rparr>"
proof -
  let ?I = "exampleSession [] [exampleShape (JNum (Finite 1)) Undefined 0]"
  have "frames_get ?I 1 = Inr \<lparr>width = 640, height = 480, number = 1, deleted = False\<rparr>"
    by (simp add: exampleSession_def)
  then have "\<exists>f fd. (0::int) \<le> f \<and> f \<le> 2 \<and> frames_get ?I f = Inr fd \<and> \<not> deleted fd
                  \<and> (\<lambda>c. c = AfterFrame 1) (AfterFrame f)"
    by (intro exI[of _ 1] exI[of _ "\<lparr>width = 640, height = 480, number = 1, deleted = False\<rparr>"]) simp
  then have h: "(\<lambda>c. c = AfterFrame 1) AfterInitialization
      \<or> (\<exists>f fd. (0::int) \<le> f \<and> f \<le> 2 \<and> frames_get ?I f = Inr fd \<and> \<not> deleted fd
                  \<and> (\<lambda>c. c = AfterFrame 1) (AfterFrame f))
      \<or> (\<lambda>c. c = AfterFrame 1) BeforeCommit"
    by blast
  from cancelled_run_leaves_store[OF h] show ?thesis by blast
qed

subsection \<open>The progress reports\<close>








subsection \<open>The committed collection\<close>

lemma run_import:
  assumes "AnnotationsImport c
             \<in> set (fst (runSingleFrameChain rounding instance chain aps frameFrom frameTo filters
                            cancelled))"
  shows "\<exists>inits chain1 ex reports chain2 h.
      initActions aps 0 chain = (inits, chain1, Fulfilled)
      \<and> getCollection_export instance = Inr ex
      \<and> iterateFrames rounding instance filters cancelled frameFrom (frameTo - frameFrom + 1)
           (shapes ex) [frameFrom..frameTo] chain1 [] []
         = (reports, LoopCompleted chain2 h (handledIDs instance filters [frameFrom..frameTo]))
      \<and> c = \<lparr>shapes = h @ carryOver (shapes ex) (handledIDs instance filters [frameFrom..frameTo]),
              tracks = tracks ex, tags = tags ex\<rparr>"
proof -
  obtain effs chain' r where run:
    "runSingleFrameChain rounding instance chain aps frameFrom frameTo filters cancelled
       = (effs, chain', r)"
    by (cases "runSingleFrameChain rounding instance chain aps frameFrom frameTo filters cancelled")
  with assms have c: "AnnotationsImport c \<in> set effs" by simp
  from run show ?thesis
  proof (cases rule: runSingleFrameChain_cases)
    case (names_failed e)
    with c show ?thesis by simp
  next
    case (log_failed names e)
    with c show ?thesis by simp
  next
    case (ran names calls chain1 rb destroys d)
    from c have "AnnotationsImport c \<in> set (storeCalls effs)"
      by (simp only: import_in_storeCalls[symmetric])
    with ran(5) have sc: "AnnotationsImport c \<in> set (storeCalls calls)" by simp
    then have "storeCalls calls \<noteq> []" by auto
    from tryBlock_store[OF ran(3) this] obtain inits chain0 ex reports h stores where
      s: "initActions aps 0 chain = (inits, chain0, Fulfilled)"
         "getCollection_export instance = Inr ex"
         "iterateFrames rounding instance filters cancelled frameFrom (frameTo - frameFrom + 1)
           (shapes ex) [frameFrom..frameTo] chain0 [] []
         = (reports, LoopCompleted chain1 h (handledIDs instance filters [frameFrom..frameTo]))"
         "commit instance ex h (handledIDs instance filters [frameFrom..frameTo]) = (stores, rb)"
         "storeCalls calls = storeCalls stores"
      by blast
    from sc s(5) have "AnnotationsImport c \<in> set stores"
      by (simp add: import_in_storeCalls[symmetric])
    from commit_calls(3)[OF s(4) this] s(1,2,3) show ?thesis by blast
  qed
qed


lemma carryOver_members:
  "s \<in> set (carryOver exported modified)
     \<longleftrightarrow> s \<in> set exported \<and> isInteger (clientID s) \<and> clientID s \<notin> set modified"
  by (auto simp: carryOver_def)


subsection \<open>Runs that reach the commit\<close>

lemma runChainOnFrame_succeeds:
  assumes "\<forall>a \<in> set chain. \<forall>st input. \<exists>r. run a st input = Inr r"
  shows "\<exists>chain' out. runChainOnFrame info chain coll = (chain', Inr out)
      \<and> (\<forall>a \<in> set chain'. \<forall>st input. \<exists>r. run a st input = Inr r)"
  using assms
proof (induction chain arbitrary: coll)
  case Nil
  then show ?case by simp
next
  case (Cons a rest)
  from Cons.prems obtain st out where
    r: "run a (state a) \<lparr>collection = coll, frameData = info\<rparr> = Inr (st, out)"
    by (metis list.set_intros(1) surj_pair)
  from Cons.prems have "\<forall>a \<in> set rest. \<forall>st input. \<exists>r. run a st input = Inr r" by simp
  from Cons.IH[OF this, of out] obtain rest' out' where
    rr: "runChainOnFrame info rest out = (rest', Inr out')"
        "\<forall>a \<in> set rest'. \<forall>st input. \<exists>r. run a st input = Inr r"
    by blast
  have "\<forall>st' input. \<exists>r. run (a\<lparr>state := st\<rparr>) st' input = Inr r" using Cons.prems by simp
  with r rr show ?case by simp
qed

lemma iterateFrames_completes:
  assumes "\<forall>a \<in> set chain. \<forall>st input. \<exists>r. run a st input = Inr r"
    and "\<forall>f \<in> set fs. \<exists>fd. frames_get instance f = Inr fd
            \<and> (\<not> deleted fd \<longrightarrow> (\<exists>states. getAnnotations instance f filters = Inr states))"
    and "\<forall>f \<in> set fs. \<not> cancelled (AfterFrame f)"
  shows "\<exists>effs chain' h' m'.
      iterateFrames rounding instance filters cancelled frameFrom tot exported fs chain h m
        = (effs, LoopCompleted chain' h' m')"
  using assms
proof (induction fs arbitrary: chain h m)
  case Nil
  then show ?case by simp
next
  case (Cons f fs)
  from Cons.prems(2) obtain fd where fd: "frames_get instance f = Inr fd"
    "\<not> deleted fd \<longrightarrow> (\<exists>states. getAnnotations instance f filters = Inr states)"
    by auto
  from Cons.prems(2) have fs: "\<forall>f \<in> set fs. \<exists>fd. frames_get instance f = Inr fd
            \<and> (\<not> deleted fd \<longrightarrow> (\<exists>states. getAnnotations instance f filters = Inr states))"
    by simp
  from Cons.prems(3) have nc: "\<forall>f \<in> set fs. \<not> cancelled (AfterFrame f)" "\<not> cancelled (AfterFrame f)"
    by simp_all
  show ?case
  proof (cases "deleted fd")
    case True
    from Cons.IH[OF Cons.prems(1) fs nc(1), of h m] fd(1) True show ?thesis by simp
  next
    case False
    with fd(2) obtain states where st: "getAnnotations instance f filters = Inr states" by blast
    from runChainOnFrame_succeeds[OF Cons.prems(1)] obtain chain1 out where
      rc: "runChainOnFrame (frame_info.truncate fd) chain
             (filter (\<lambda>s. clientID s \<in> set (frameCollectionIDs states)) exported) = (chain1, Inr out)"
          "\<forall>a \<in> set chain1. \<forall>st input. \<exists>r. run a st input = Inr r"
      by blast
    from Cons.IH[OF rc(2) fs nc(1), of "h @ map omit_id out" "m @ frameCollectionIDs states"]
    obtain effs chain' h' m' where
      "iterateFrames rounding instance filters cancelled frameFrom tot exported fs chain1
         (h @ map omit_id out) (m @ frameCollectionIDs states) = (effs, LoopCompleted chain' h' m')"
      by blast
    with fd(1) False st rc(1) nc(2) show ?thesis by (simp add: Let_def)
  qed
qed

lemma run_commits:
  assumes "actionNames chain = Inr names"
    and "logger_log instance frameFrom frameTo (join '' => '' names) = None"
    and "\<forall>cp. \<not> cancelled cp"
    and "initActions aps 0 chain = (inits, chain1, Fulfilled)"
    and "\<forall>a \<in> set chain1. \<forall>st input. \<exists>r. run a st input = Inr r"
    and "getCollection_export instance = Inr ex"
    and "\<forall>f \<in> set [frameFrom..frameTo]. \<exists>fd. frames_get instance f = Inr fd
            \<and> (\<not> deleted fd \<longrightarrow> (\<exists>states. getAnnotations instance f filters = Inr states))"
    and "annotations_clear instance = None" and "actions_clear instance = None"
  shows "\<exists>c. AnnotationsImport c
             \<in> set (fst (runSingleFrameChain rounding instance chain aps frameFrom frameTo filters
                            cancelled))"
proof -
  from assms(3) have nc: "\<forall>f \<in> set [frameFrom..frameTo]. \<not> cancelled (AfterFrame f)" by simp
  from iterateFrames_completes[OF assms(5,7) nc] obtain reports chain2 h m where
    it: "iterateFrames rounding instance filters cancelled frameFrom (frameTo - frameFrom + 1)
           (shapes ex) [frameFrom..frameTo] chain1 [] [] = (reports, LoopCompleted chain2 h m)"
    by blast
  obtain stores r where c: "commit instance ex h m = (stores, r)"
    by (cases "commit instance ex h m")
  from c assms(8,9) have i: "AnnotationsImport
      \<lparr>shapes = h @ carryOver (shapes ex) m, tracks = tracks ex, tags = tags ex\<rparr> \<in> set stores"
    by (auto simp: commit_def Let_def split: option.splits)
  have t: "tryBlock rounding instance chain aps frameFrom frameTo filters cancelled
     = (OnProgress ''Actions initialization'' 0 # map (\<lambda>(i, ps). Init i ps) inits @ reports
          @ [OnProgress ''Commiting handled objects'' 100] @ stores, chain2, r)"
    using assms(3,4,6) it c by (simp add: tryBlock_def)
  obtain destroys chain3 d where d: "destroyActions 0 chain2 = (destroys, chain3, d)"
    by (cases "destroyActions 0 chain2")
  have "fst (runSingleFrameChain rounding instance chain aps frameFrom frameTo filters cancelled)
     = LoggerLog frameFrom frameTo (join '' => '' names)
         # (OnProgress ''Actions initialization'' 0 # map (\<lambda>(i, ps). Init i ps) inits @ reports
          @ [OnProgress ''Commiting handled objects'' 100] @ stores)
         @ [OnProgress ''Finalizing'' 100] @ map Destroy destroys"
    using assms(1,2) t d by (simp add: runSingleFrameChain_def)
  with i show ?thesis by auto
qed

subsection \<open>Example runs\<close>

lemmas example_defs = runSingleFrameChain_def tryBlock_def exampleSession_def exampleShape_def
  exactRounding_def neverCancelled_def
  frameCollectionIDs_def progressOf_def commit_def carryOver_def omit_id_def Let_def
  RemoveFilteredShapes_def resolveParameters_def frame_info.defs


lemma empty_chain_run:
  "fst (runSingleFrameChain exactRounding
          (exampleSession [1]
             [exampleShape (JNum (Finite 1)) (JNum (Finite 7)) 0,
              exampleShape (JNum (Finite 2)) (JNum (Finite 8)) 1,
              exampleShape Undefined Undefined 5])
          ([] :: (unit, unit) action list) [] 0 1 [] neverCancelled)
     = [LoggerLog 0 1 [], OnProgress ''Actions initialization'' 0,
        OnProgress ''Actions are running'' 0,
        OnProgress ''Commiting handled objects'' 100, AnnotationsClear, ActionsClear,
        AnnotationsImport \<lparr>shapes = [exampleShape (JNum (Finite 1)) Undefined 0,
                                     exampleShape (JNum (Finite 2)) (JNum (Finite 8)) 1],
                           tracks = [], tags = []\<rparr>,
        EventClose, OnProgress ''Finalizing'' 100]"
  by (simp add: example_defs upto_rec1)

lemma deleted_frame_run:
  "fst (runSingleFrameChain exactRounding
          (exampleSession [0] [exampleShape (JNum (Finite 1)) Undefined 0])
          ([] :: (unit, unit) action list) [] 0 0 [] neverCancelled)
     = [LoggerLog 0 0 [], OnProgress ''Actions initialization'' 0,
        OnProgress ''Commiting handled objects'' 100, AnnotationsClear, ActionsClear,
        AnnotationsImport \<lparr>shapes = [exampleShape (JNum (Finite 1)) Undefined 0],
                           tracks = [], tags = []\<rparr>,
        EventClose, OnProgress ''Finalizing'' 100]"
  by (simp add: example_defs)




text \<open>
  C10. In every run that commits, the carry-over pass re-emits a shape of the snapshot
  only if its client identifier is an integer. A shape of the snapshot whose client
  identifier is missing or not an integer is not in the carried-over part of the committed
  collection, and it is not in the committed collection at all unless the chain itself
  returned an equal shape.
\<close>

theorem carry_over_requires_integer_clientID:
  assumes "AnnotationsImport c
             \<in> set (fst (runSingleFrameChain rounding instance chain actionParameters frameFrom
                            frameTo filters cancelled))"
  shows "\<exists>inits chain1 ex reports chain2 h.
      initActions actionParameters 0 chain = (inits, chain1, Fulfilled)
      \<and> getCollection_export instance = Inr ex
      \<and> iterateFrames rounding instance filters cancelled frameFrom (frameTo - frameFrom + 1)
           (shapes ex) [frameFrom..frameTo] chain1 [] []
         = (reports, LoopCompleted chain2 h (handledIDs instance filters [frameFrom..frameTo]))
      \<and> shapes c = h @ carryOver (shapes ex) (handledIDs instance filters [frameFrom..frameTo])
      \<and> (\<forall>s \<in> set (carryOver (shapes ex) (handledIDs instance filters [frameFrom..frameTo])).
            isInteger (clientID s))
      \<and> (\<forall>s \<in> set (shapes ex). \<not> isInteger (clientID s)
            \<longrightarrow> s \<notin> set (carryOver (shapes ex)
                             (handledIDs instance filters [frameFrom..frameTo]))
                \<and> (s \<notin> set h \<longrightarrow> s \<notin> set (shapes c)))"
proof -
  from run_import[OF assms] obtain inits chain1 ex reports chain2 h where
    r: "initActions actionParameters 0 chain = (inits, chain1, Fulfilled)"
       "getCollection_export instance = Inr ex"
       "iterateFrames rounding instance filters cancelled frameFrom (frameTo - frameFrom + 1)
           (shapes ex) [frameFrom..frameTo] chain1 [] []
         = (reports, LoopCompleted chain2 h (handledIDs instance filters [frameFrom..frameTo]))"
       "c = \<lparr>shapes = h @ carryOver (shapes ex) (handledIDs instance filters [frameFrom..frameTo]),
              tracks = tracks ex, tags = tags ex\<rparr>"
    by blast
  let ?carried = "carryOver (shapes ex) (handledIDs instance filters [frameFrom..frameTo])"
  have a: "\<forall>s \<in> set ?carried. isInteger (clientID s)"
    by (simp add: carryOver_members)
  have b: "\<forall>s \<in> set (shapes ex). \<not> isInteger (clientID s)
            \<longrightarrow> s \<notin> set ?carried \<and> (s \<notin> set h \<longrightarrow> s \<notin> set (shapes c))"
  proof (intro ballI impI conjI)
    fix s assume "s \<in> set (shapes ex)" and "\<not> isInteger (clientID s)"
    then show n: "s \<notin> set ?carried" by (simp add: carryOver_members)
    assume "s \<notin> set h"
    with n show "s \<notin> set (shapes c)" unfolding r(4) by simp
  qed
  from r(4) have sc: "shapes c = h @ ?carried" by simp
  show ?thesis
    by (intro exI[of _ inits] exI[of _ chain1] exI[of _ ex] exI[of _ reports]
        exI[of _ chain2] exI[of _ h] conjI) (fact r(1) r(2) r(3) sc a b)+
qed

theorem carry_over_requires_integer_clientID_witness:
  "exampleShape Undefined Undefined 5
     \<notin> set (carryOver [exampleShape (JNum (Finite 1)) (JNum (Finite 7)) 0,
                        exampleShape (JNum (Finite 2)) (JNum (Finite 8)) 1,
                        exampleShape Undefined Undefined 5]
                (handledIDs (exampleSession [1]
                   [exampleShape (JNum (Finite 1)) (JNum (Finite 7)) 0,
                    exampleShape (JNum (Finite 2)) (JNum (Finite 8)) 1,
                    exampleShape Undefined Undefined 5]) [] [0..1]))"
proof -
  let ?snapshot = "[exampleShape (JNum (Finite 1)) (JNum (Finite 7)) 0,
                    exampleShape (JNum (Finite 2)) (JNum (Finite 8)) 1,
                    exampleShape Undefined Undefined 5]"
  let ?I = "exampleSession [1] ?snapshot"
  let ?c = "\<lparr>shapes = [exampleShape (JNum (Finite 1)) Undefined 0,
                        exampleShape (JNum (Finite 2)) (JNum (Finite 8)) 1],
              tracks = [], tags = []\<rparr> :: (unit, unit) SerializedCollection"
  have i: "AnnotationsImport ?c
     \<in> set (fst (runSingleFrameChain exactRounding ?I ([] :: (unit, unit) action list) [] 0 1 []
                   neverCancelled))"
    by (simp add: empty_chain_run)
  have e: "getCollection_export ?I = Inr \<lparr>shapes = ?snapshot, tracks = [], tags = []\<rparr>"
    by (simp add: exampleSession_def)
  from carry_over_requires_integer_clientID[OF i] obtain ex h where
    w: "getCollection_export ?I = Inr ex"
       "\<forall>s \<in> set (shapes ex). \<not> isInteger (clientID s)
            \<longrightarrow> s \<notin> set (carryOver (shapes ex) (handledIDs ?I [] [0..1]))
                \<and> (s \<notin> set h \<longrightarrow> s \<notin> set (shapes ?c))"
    by blast
  from w(1) e have ex: "shapes ex = ?snapshot" by auto
  have "exampleShape Undefined Undefined 5 \<in> set ?snapshot" by simp
  moreover have "\<not> isInteger (clientID (exampleShape Undefined Undefined 5))"
    by (simp add: exampleShape_def)
  ultimately show ?thesis using w(2) unfolding ex by blast
qed

text \<open>
  C3, as stated, on a range whose only frame is deleted: the shape drawn on that frame is in
  the committed collection, unchanged.
\<close>

theorem deleted_frame_shape_kept_counterexample:
  "frames_get (exampleSession [0] [exampleShape (JNum (Finite 1)) Undefined 0]) 0
     = Inr \<lparr>width = 640, height = 480, number = 0, deleted = True\<rparr>
   \<and> frame_of_shape (exampleShape (JNum (Finite 1)) Undefined 0) = 0
   \<and> AnnotationsImport \<lparr>shapes = [exampleShape (JNum (Finite 1)) Undefined 0],
                         tracks = [], tags = []\<rparr>
     \<in> set (fst (runSingleFrameChain exactRounding
          (exampleSession [0] [exampleShape (JNum (Finite 1)) Undefined 0])
          ([] :: (unit, unit) action list) [] 0 0 [] neverCancelled))"
  by (simp add: deleted_frame_run) (simp add: exampleSession_def exampleShape_def)

text \<open>
  C3, amended. A frame that the provider flags as deleted is skipped: the loop goes on to the
  next frame with the chain, the handled buffer and the handled set as they were, and the
  frame adds no identifier to the handled set. So in a run that commits, a shape of the
  snapshot drawn on a deleted frame, whose client identifier is an integer that the filter
  shows on no other frame of the range, is carried over unchanged into the committed
  collection.
\<close>

theorem deleted_frame_shapes_are_carried_over:
  assumes "frames_get instance f = Inr fd" and "deleted fd"
  shows "iterateFrames rounding instance filters cancelled frameFrom tot exported (f # later)
           chain0 h m
         = iterateFrames rounding instance filters cancelled frameFrom tot exported later
             chain0 h m
    \<and> visibleIDs instance filters f = []
    \<and> (AnnotationsImport c
           \<in> set (fst (runSingleFrameChain rounding instance chain actionParameters frameFrom
                          frameTo filters cancelled))
        \<and> getCollection_export instance = Inr ex \<and> s \<in> set (shapes ex) \<and> frame_of_shape s = f
        \<and> isInteger (clientID s)
        \<and> (\<forall>g \<in> set [frameFrom..frameTo]. g \<noteq> f \<longrightarrow> clientID s \<notin> set (visibleIDs instance filters g))
        \<longrightarrow> s \<in> set (carryOver (shapes ex) (handledIDs instance filters [frameFrom..frameTo]))
            \<and> s \<in> set (shapes c))"
proof (intro conjI impI)
  show "iterateFrames rounding instance filters cancelled frameFrom tot exported (f # later)
           chain0 h m
         = iterateFrames rounding instance filters cancelled frameFrom tot exported later
             chain0 h m"
    using assms by simp
  show v: "visibleIDs instance filters f = []"
    using assms by (simp add: visibleIDs_def)
  assume a: "AnnotationsImport c
           \<in> set (fst (runSingleFrameChain rounding instance chain actionParameters frameFrom
                          frameTo filters cancelled))
        \<and> getCollection_export instance = Inr ex \<and> s \<in> set (shapes ex) \<and> frame_of_shape s = f
        \<and> isInteger (clientID s)
        \<and> (\<forall>g \<in> set [frameFrom..frameTo]. g \<noteq> f \<longrightarrow> clientID s \<notin> set (visibleIDs instance filters g))"
  then have i: "AnnotationsImport c
           \<in> set (fst (runSingleFrameChain rounding instance chain actionParameters frameFrom
                          frameTo filters cancelled))" by simp
  from a have e: "getCollection_export instance = Inr ex" and s: "s \<in> set (shapes ex)"
    and n: "isInteger (clientID s)"
    and o: "\<forall>g \<in> set [frameFrom..frameTo]. g \<noteq> f \<longrightarrow> clientID s \<notin> set (visibleIDs instance filters g)"
    by blast+
  from run_import[OF i] obtain ex' h' where
    c: "getCollection_export instance = Inr ex'"
       "c = \<lparr>shapes = h' @ carryOver (shapes ex') (handledIDs instance filters [frameFrom..frameTo]),
              tracks = tracks ex', tags = tags ex'\<rparr>"
    by blast
  from c(1) e have ex: "ex' = ex" by simp
  have "clientID s \<notin> set (visibleIDs instance filters g)" if "g \<in> set [frameFrom..frameTo]" for g
  proof (cases "g = f")
    case True
    with v show ?thesis by simp
  next
    case False
    with o that show ?thesis by blast
  qed
  then have "clientID s \<notin> set (handledIDs instance filters [frameFrom..frameTo])"
    unfolding handledIDs_def by auto
  with s n show k: "s \<in> set (carryOver (shapes ex) (handledIDs instance filters [frameFrom..frameTo]))"
    by (simp add: carryOver_members)
  from c(2) have "shapes c = h' @ carryOver (shapes ex) (handledIDs instance filters [frameFrom..frameTo])"
    unfolding ex by simp
  with k show "s \<in> set (shapes c)" by simp
qed

theorem deleted_frame_shapes_are_carried_over_witness:
  "exampleShape (JNum (Finite 2)) (JNum (Finite 8)) 1
     \<in> set (shapes (\<lparr>shapes = [exampleShape (JNum (Finite 1)) Undefined 0,
                                exampleShape (JNum (Finite 2)) (JNum (Finite 8)) 1],
                      tracks = [], tags = []\<rparr> :: (unit, unit) SerializedCollection))
   \<and> visibleIDs (exampleSession [1]
         [exampleShape (JNum (Finite 1)) (JNum (Finite 7)) 0,
          exampleShape (JNum (Finite 2)) (JNum (Finite 8)) 1,
          exampleShape Undefined Undefined 5]) [] 1 = []"
proof -
  let ?snapshot = "[exampleShape (JNum (Finite 1)) (JNum (Finite 7)) 0,
                    exampleShape (JNum (Finite 2)) (JNum (Finite 8)) 1,
                    exampleShape Undefined Undefined 5]"
  let ?I = "exampleSession [1] ?snapshot"
  let ?c = "\<lparr>shapes = [exampleShape (JNum (Finite 1)) Undefined 0,
                        exampleShape (JNum (Finite 2)) (JNum (Finite 8)) 1],
              tracks = [], tags = []\<rparr> :: (unit, unit) SerializedCollection"
  let ?s = "exampleShape (JNum (Finite 2)) (JNum (Finite 8)) 1"
  have fd: "frames_get ?I 1 = Inr \<lparr>width = 640, height = 480, number = 1, deleted = True\<rparr>"
    "deleted \<lparr>width = 640, height = 480, number = 1, deleted = True\<rparr>"
    by (simp_all add: exampleSession_def)
  have i: "AnnotationsImport ?c
     \<in> set (fst (runSingleFrameChain exactRounding ?I ([] :: (unit, unit) action list) [] 0 1 []
                   neverCancelled))"
    by (simp add: empty_chain_run)
  have e: "getCollection_export ?I = Inr \<lparr>shapes = ?snapshot, tracks = [], tags = []\<rparr>"
    by (simp add: exampleSession_def)
  have s: "?s \<in> set (shapes \<lparr>shapes = ?snapshot, tracks = ([] :: unit list), tags = ([] :: unit list)\<rparr>)"
    "frame_of_shape ?s = 1" "isInteger (clientID ?s)"
    by (simp_all add: exampleShape_def)
  have o: "\<forall>g \<in> set [0..1]. g \<noteq> 1 \<longrightarrow> clientID ?s \<notin> set (visibleIDs ?I [] g)"
    by (simp add: upto_rec1 visibleIDs_def exampleSession_def exampleShape_def frameCollectionIDs_def)
  note t = deleted_frame_shapes_are_carried_over[OF fd, where c = ?c and s = ?s
      and rounding = exactRounding and chain = "[] :: (unit, unit) action list"
      and actionParameters = "[]" and frameFrom = 0 and frameTo = 1 and filters = "[]"
      and cancelled = neverCancelled and ex = "\<lparr>shapes = ?snapshot, tracks = [], tags = []\<rparr>"]
  from t[THEN conjunct2, THEN conjunct1] have v: "visibleIDs ?I [] 1 = []" .
  from i e s o have "?s \<in> set (shapes ?c)"
    using t[THEN conjunct2, THEN conjunct2] by blast
  then show ?thesis using v by (rule conjI)
qed

subsection \<open>The empty chain and the built-in action\<close>

lemma iterateFrames_empty_chain:
  "iterateFrames rounding instance filters cancelled frameFrom tot exported fs [] h m
     = (effs, LoopCompleted chain' h' m') \<Longrightarrow>
   chain' = []
   \<and> h' = h @ concat (map (\<lambda>f. map omit_id
                (filter (\<lambda>s. clientID s \<in> set (visibleIDs instance filters f)) exported)) fs)"
proof (induction fs arbitrary: h m effs)
  case Nil
  then show ?case by auto
next
  case (Cons f fs)
  from Cons.prems show ?case
  proof (cases rule: iterateFrames_Cons_cases)
    case (skipped fd)
    from Cons.IH[OF skipped(3)] skipped(1,2) show ?thesis by (simp add: visibleIDs_def)
  next
    case (continued fd states chain1 result effs')
    from continued(4) have c: "chain1 = []"
      "result = filter (\<lambda>s. clientID s \<in> set (frameCollectionIDs states)) exported"
      by simp_all
    have v: "visibleIDs instance filters f = frameCollectionIDs states"
      using continued(1,2,3) by (simp add: visibleIDs_def)
    from Cons.IH[OF continued(6)[unfolded c(1)]] c(2) v show ?thesis by simp
  qed simp_all
qed


lemma mset_filter_disjoint:
  "\<forall>x \<in> set xs. \<not> (A x \<and> B x) \<Longrightarrow>
     mset (filter A xs) + mset (filter B xs) = mset (filter (\<lambda>x. A x \<or> B x) xs)"
  by (induction xs) auto

lemma mset_concat_filters:
  assumes "distinct fs"
    and "\<forall>x \<in> set xs. \<forall>f \<in> set fs. \<forall>g \<in> set fs. P f x \<and> P g x \<longrightarrow> f = g"
  shows "mset (concat (map (\<lambda>f. filter (P f) xs) fs)) = mset (filter (\<lambda>x. \<exists>f \<in> set fs. P f x) xs)"
  using assms
proof (induction fs)
  case Nil
  then show ?case by simp
next
  case (Cons f fs)
  have d: "\<forall>x \<in> set xs. \<not> (P f x \<and> (\<exists>g \<in> set fs. P g x))"
  proof (intro ballI notI)
    fix x assume "x \<in> set xs" and "P f x \<and> (\<exists>g \<in> set fs. P g x)"
    then obtain g where g: "g \<in> set fs" "P g x" "P f x" by blast
    with Cons.prems(2) \<open>x \<in> set xs\<close> have "f = g" by (meson list.set_intros)
    with g(1) Cons.prems(1) show False by simp
  qed
  have "mset (concat (map (\<lambda>f. filter (P f) xs) fs)) = mset (filter (\<lambda>x. \<exists>f \<in> set fs. P f x) xs)"
    using Cons.IH Cons.prems by simp
  then have "mset (concat (map (\<lambda>f. filter (P f) xs) (f # fs)))
      = mset (filter (P f) xs) + mset (filter (\<lambda>x. \<exists>g \<in> set fs. P g x) xs)"
    by simp
  also have "\<dots> = mset (filter (\<lambda>x. P f x \<or> (\<exists>g \<in> set fs. P g x)) xs)"
    using d by (rule mset_filter_disjoint)
  also have "\<dots> = mset (filter (\<lambda>x. \<exists>g \<in> set (f # fs). P g x) xs)"
    by simp
  finally show ?case .
qed

lemma omit_id_idem [simp]: "omit_id (omit_id s) = omit_id s"
  by (simp add: omit_id_def)

lemma handled_and_carried_mset:
  assumes "distinct fs"
    and "\<forall>s \<in> set xs. isInteger (clientID s)"
    and "\<forall>s \<in> set xs. \<forall>f \<in> set fs. \<forall>g \<in> set fs.
           clientID s \<in> set (visibleIDs instance filters f)
           \<and> clientID s \<in> set (visibleIDs instance filters g) \<longrightarrow> f = g"
  shows "mset (map omit_id
           (concat (map (\<lambda>f. map omit_id
                (filter (\<lambda>s. clientID s \<in> set (visibleIDs instance filters f)) xs)) fs)
            @ carryOver xs (handledIDs instance filters fs)))
         = mset (map omit_id xs)"
proof -
  let ?P = "\<lambda>f s. clientID s \<in> set (visibleIDs instance filters f)"
  have c: "carryOver xs (handledIDs instance filters fs) = filter (\<lambda>s. \<not> (\<exists>f \<in> set fs. ?P f s)) xs"
    unfolding carryOver_def handledIDs_def using assms(2) by (intro filter_cong) auto
  have "concat (map (\<lambda>f. map omit_id (filter (?P f) xs)) fs)
      = map omit_id (concat (map (\<lambda>f. filter (?P f) xs) fs))"
    by (simp add: map_concat comp_def)
  then have "mset (map omit_id (concat (map (\<lambda>f. map omit_id (filter (?P f) xs)) fs)
               @ carryOver xs (handledIDs instance filters fs)))
      = image_mset omit_id (mset (concat (map (\<lambda>f. filter (?P f) xs) fs))
           + mset (filter (\<lambda>s. \<not> (\<exists>f \<in> set fs. ?P f s)) xs))"
    unfolding c by (simp add: comp_def)
  also have "mset (concat (map (\<lambda>f. filter (?P f) xs) fs))
      = mset (filter (\<lambda>s. \<exists>f \<in> set fs. ?P f s) xs)"
    using assms(1,3) by (rule mset_concat_filters)
  also have "mset (filter (\<lambda>s. \<exists>f \<in> set fs. ?P f s) xs)
           + mset (filter (\<lambda>s. \<not> (\<exists>f \<in> set fs. ?P f s)) xs) = mset xs"
    by (induction xs) auto
  finally show ?thesis by simp
qed

lemma identity_run:
  "fst (runSingleFrameChain exactRounding
          (exampleSession [] [exampleShape (JNum (Finite 1)) (JNum (Finite 7)) 0])
          ([] :: (unit, unit) action list) [] 0 0 [] neverCancelled)
     = [LoggerLog 0 0 [], OnProgress ''Actions initialization'' 0,
        OnProgress ''Actions are running'' 0,
        OnProgress ''Commiting handled objects'' 100, AnnotationsClear, ActionsClear,
        AnnotationsImport \<lparr>shapes = [exampleShape (JNum (Finite 1)) Undefined 0],
                           tracks = [], tags = []\<rparr>,
        EventClose, OnProgress ''Finalizing'' 100]"
  by (simp add: example_defs)

lemma passthrough_run:
  "fst (runSingleFrameChain exactRounding
          (exampleSession []
             [exampleShape (JNum (Finite 1)) (JNum (Finite 7)) 0,
              exampleShape (JNum (Finite 2)) (JNum (Finite 8)) 1,
              exampleShape (JNum (Finite 3)) (JNum (Finite 9)) 5])
          ([] :: (unit, unit) action list) [] 0 1 [] neverCancelled)
     = [LoggerLog 0 1 [], OnProgress ''Actions initialization'' 0,
        OnProgress ''Actions are running'' 0, OnProgress ''Actions are running'' 50,
        OnProgress ''Commiting handled objects'' 100, AnnotationsClear, ActionsClear,
        AnnotationsImport \<lparr>shapes = [exampleShape (JNum (Finite 1)) Undefined 0,
                                     exampleShape (JNum (Finite 2)) Undefined 1,
                                     exampleShape (JNum (Finite 3)) (JNum (Finite 9)) 5],
                           tracks = [], tags = []\<rparr>,
        EventClose, OnProgress ''Finalizing'' 100]"
  by (simp add: example_defs upto_rec1)


text \<open>
  C7, as stated, on a frame with one shape that has a server identifier: after the run with
  no action the committed shape has lost its \<open>id\<close>, so the committed collection does not hold
  the shape of the snapshot.
\<close>

theorem empty_chain_strips_id_counterexample:
  "AnnotationsImport \<lparr>shapes = [exampleShape (JNum (Finite 1)) Undefined 0],
                       tracks = [], tags = []\<rparr>
     \<in> set (fst (runSingleFrameChain exactRounding
          (exampleSession [] [exampleShape (JNum (Finite 1)) (JNum (Finite 7)) 0])
          ([] :: (unit, unit) action list) [] 0 0 [] neverCancelled))
   \<and> exampleShape (JNum (Finite 1)) (JNum (Finite 7)) 0
       \<notin> set [exampleShape (JNum (Finite 1)) Undefined 0]"
  by (simp add: identity_run) (simp add: exampleShape_def)

text \<open>
  C7, amended. The empty chain returns the shapes of a frame as it got them. A run with no
  action that is never cancelled and whose collaborators do not fail commits; and when a run
  with no action commits, the committed shapes are, frame by frame in ascending order, the
  shapes of the snapshot that the filter shows on the frame, changed only in that the \<open>id\<close>
  is omitted, followed by the carry-over, and tracks and tags are the snapshot's. When
  every shape of the snapshot has an integer client identifier and the filter shows none
  on two frames of the range, the committed shapes are the shapes of the snapshot up to the
  order and the omitted \<open>id\<close>.
\<close>

theorem empty_chain_keeps_shapes_up_to_id:
  "runChainOnFrame info ([] :: ('s, 'p) action list) coll = ([], Inr coll)
   \<and> ((\<forall>cp. \<not> cancelled cp)
        \<and> logger_log instance frameFrom frameTo (join '' => '' []) = None
        \<and> getCollection_export instance = Inr ex
        \<and> (\<forall>f \<in> set [frameFrom..frameTo]. \<exists>fd. frames_get instance f = Inr fd
              \<and> (\<not> deleted fd \<longrightarrow> (\<exists>states. getAnnotations instance f filters = Inr states)))
        \<and> annotations_clear instance = None \<and> actions_clear instance = None
       \<longrightarrow> (\<exists>c. AnnotationsImport c
                  \<in> set (fst (runSingleFrameChain rounding instance ([] :: ('s, 'p) action list)
                                 actionParameters frameFrom frameTo filters cancelled))))
   \<and> (AnnotationsImport c
          \<in> set (fst (runSingleFrameChain rounding instance ([] :: ('s, 'p) action list)
                         actionParameters frameFrom frameTo filters cancelled))
        \<and> getCollection_export instance = Inr ex
       \<longrightarrow> shapes c
             = concat (map (\<lambda>f. map omit_id
                  (filter (\<lambda>s. clientID s \<in> set (visibleIDs instance filters f)) (shapes ex)))
                  [frameFrom..frameTo])
               @ carryOver (shapes ex) (handledIDs instance filters [frameFrom..frameTo])
           \<and> tracks c = tracks ex \<and> tags c = tags ex
           \<and> ((\<forall>s \<in> set (shapes ex). isInteger (clientID s))
                \<and> (\<forall>s \<in> set (shapes ex). \<forall>f \<in> set [frameFrom..frameTo].
                      \<forall>g \<in> set [frameFrom..frameTo].
                        clientID s \<in> set (visibleIDs instance filters f)
                        \<and> clientID s \<in> set (visibleIDs instance filters g) \<longrightarrow> f = g)
               \<longrightarrow> mset (map omit_id (shapes c)) = mset (map omit_id (shapes ex))))"
proof (intro conjI impI)
  show "runChainOnFrame info ([] :: ('s, 'p) action list) coll = ([], Inr coll)" by simp
next
  assume a: "(\<forall>cp. \<not> cancelled cp)
        \<and> logger_log instance frameFrom frameTo (join '' => '' []) = None
        \<and> getCollection_export instance = Inr ex
        \<and> (\<forall>f \<in> set [frameFrom..frameTo]. \<exists>fd. frames_get instance f = Inr fd
              \<and> (\<not> deleted fd \<longrightarrow> (\<exists>states. getAnnotations instance f filters = Inr states)))
        \<and> annotations_clear instance = None \<and> actions_clear instance = None"
  have n: "actionNames ([] :: ('s, 'p) action list) = Inr []" by simp
  have i: "initActions actionParameters 0 ([] :: ('s, 'p) action list) = ([], [], Fulfilled)"
    by simp
  have t: "\<forall>a \<in> set ([] :: ('s, 'p) action list). \<forall>st input. \<exists>r. run a st input = Inr r"
    by simp
  from a show "\<exists>c. AnnotationsImport c
                  \<in> set (fst (runSingleFrameChain rounding instance ([] :: ('s, 'p) action list)
                                 actionParameters frameFrom frameTo filters cancelled))"
    by (intro run_commits[OF n _ _ i t]) blast+
next
  assume a: "AnnotationsImport c
          \<in> set (fst (runSingleFrameChain rounding instance ([] :: ('s, 'p) action list)
                         actionParameters frameFrom frameTo filters cancelled))
        \<and> getCollection_export instance = Inr ex"
  then have i: "AnnotationsImport c
          \<in> set (fst (runSingleFrameChain rounding instance ([] :: ('s, 'p) action list)
                         actionParameters frameFrom frameTo filters cancelled))"
    and e: "getCollection_export instance = Inr ex"
    by simp_all
  from run_import[OF i] obtain inits and chain1 :: "('s, 'p) action list"
      and ex' reports and chain2 :: "('s, 'p) action list" and h where
    r: "initActions actionParameters 0 ([] :: ('s, 'p) action list) = (inits, chain1, Fulfilled)"
       "getCollection_export instance = Inr ex'"
       "iterateFrames rounding instance filters cancelled frameFrom (frameTo - frameFrom + 1)
           (shapes ex') [frameFrom..frameTo] chain1 [] []
         = (reports, LoopCompleted chain2 h (handledIDs instance filters [frameFrom..frameTo]))"
       "c = \<lparr>shapes = h @ carryOver (shapes ex') (handledIDs instance filters [frameFrom..frameTo]),
              tracks = tracks ex', tags = tags ex'\<rparr>"
    by blast
  from r(2) e have ex: "ex' = ex" by simp
  from r(1) have c1: "chain1 = []" by simp
  from iterateFrames_empty_chain[OF r(3)[unfolded c1 ex]]
  have h: "h = concat (map (\<lambda>f. map omit_id
                (filter (\<lambda>s. clientID s \<in> set (visibleIDs instance filters f)) (shapes ex)))
                [frameFrom..frameTo])"
    by simp
  from r(4) show s: "shapes c
             = concat (map (\<lambda>f. map omit_id
                  (filter (\<lambda>s. clientID s \<in> set (visibleIDs instance filters f)) (shapes ex)))
                  [frameFrom..frameTo])
               @ carryOver (shapes ex) (handledIDs instance filters [frameFrom..frameTo])"
    unfolding ex h by simp
  from r(4) show "tracks c = tracks ex" "tags c = tags ex" unfolding ex by simp_all
  assume b: "(\<forall>s \<in> set (shapes ex). isInteger (clientID s))
                \<and> (\<forall>s \<in> set (shapes ex). \<forall>f \<in> set [frameFrom..frameTo].
                      \<forall>g \<in> set [frameFrom..frameTo].
                        clientID s \<in> set (visibleIDs instance filters f)
                        \<and> clientID s \<in> set (visibleIDs instance filters g) \<longrightarrow> f = g)"
  have d: "distinct [frameFrom..frameTo]" by simp
  from handled_and_carried_mset[OF d b[THEN conjunct1] b[THEN conjunct2]]
  show "mset (map omit_id (shapes c)) = mset (map omit_id (shapes ex))"
    unfolding s .
qed

theorem empty_chain_keeps_shapes_up_to_id_witness:
  "(\<exists>c. AnnotationsImport c
        \<in> set (fst (runSingleFrameChain exactRounding
               (exampleSession []
                  [exampleShape (JNum (Finite 1)) (JNum (Finite 7)) 0,
                   exampleShape (JNum (Finite 2)) (JNum (Finite 8)) 1,
                   exampleShape (JNum (Finite 3)) (JNum (Finite 9)) 5])
               ([] :: (unit, unit) action list) [] 0 1 [] neverCancelled)))
   \<and> mset (map omit_id [exampleShape (JNum (Finite 1)) Undefined 0,
                         exampleShape (JNum (Finite 2)) Undefined 1,
                         exampleShape (JNum (Finite 3)) (JNum (Finite 9)) 5])
     = mset (map omit_id [exampleShape (JNum (Finite 1)) (JNum (Finite 7)) 0,
                           exampleShape (JNum (Finite 2)) (JNum (Finite 8)) 1,
                           exampleShape (JNum (Finite 3)) (JNum (Finite 9)) 5])"
proof -
  let ?snapshot = "[exampleShape (JNum (Finite 1)) (JNum (Finite 7)) 0,
                    exampleShape (JNum (Finite 2)) (JNum (Finite 8)) 1,
                    exampleShape (JNum (Finite 3)) (JNum (Finite 9)) 5]"
  let ?I = "exampleSession [] ?snapshot"
  let ?ex = "\<lparr>shapes = ?snapshot, tracks = [], tags = []\<rparr> :: (unit, unit) SerializedCollection"
  let ?c = "\<lparr>shapes = [exampleShape (JNum (Finite 1)) Undefined 0,
                        exampleShape (JNum (Finite 2)) Undefined 1,
                        exampleShape (JNum (Finite 3)) (JNum (Finite 9)) 5],
              tracks = [], tags = []\<rparr> :: (unit, unit) SerializedCollection"
  note t = empty_chain_keeps_shapes_up_to_id[where ?instance = ?I and ex = ?ex and c = ?c
      and rounding = exactRounding and actionParameters = "[]" and frameFrom = 0 and frameTo = 1
      and filters = "[]" and cancelled = neverCancelled]
  have e: "getCollection_export ?I = Inr ?ex" by (simp add: exampleSession_def)
  have l: "logger_log ?I 0 1 (join '' => '' []) = None" by (simp add: exampleSession_def)
  have f: "\<forall>f \<in> set [0..1]. \<exists>fd. frames_get ?I f = Inr fd
              \<and> (\<not> deleted fd \<longrightarrow> (\<exists>states. getAnnotations ?I f [] = Inr states))"
    by (simp add: exampleSession_def)
  have k: "annotations_clear ?I = None" "actions_clear ?I = None"
    by (simp_all add: exampleSession_def)
  have nc: "\<forall>cp. \<not> neverCancelled cp" by (simp add: neverCancelled_def)
  from nc l e f k have a: "\<exists>c. AnnotationsImport c
        \<in> set (fst (runSingleFrameChain exactRounding ?I ([] :: (unit, unit) action list) [] 0 1 []
                      neverCancelled))"
    by (intro t[THEN conjunct2, THEN conjunct1, THEN mp] conjI)
  have i: "AnnotationsImport ?c
        \<in> set (fst (runSingleFrameChain exactRounding ?I ([] :: (unit, unit) action list) [] 0 1 []
                      neverCancelled))"
    by (simp add: passthrough_run)
  have n: "\<forall>s \<in> set (shapes ?ex). isInteger (clientID s)"
    by (simp add: exampleShape_def)
  have v: "visibleIDs ?I [] 0 = [JNum (Finite 1)]" "visibleIDs ?I [] 1 = [JNum (Finite 2)]"
    by (simp_all add: visibleIDs_def exampleSession_def exampleShape_def frameCollectionIDs_def)
  have u: "\<forall>s \<in> set (shapes ?ex). \<forall>f \<in> set [0..1]. \<forall>g \<in> set [0..1].
             clientID s \<in> set (visibleIDs ?I [] f) \<and> clientID s \<in> set (visibleIDs ?I [] g)
             \<longrightarrow> f = g"
    by (simp add: upto_rec1 v)
  from i e have p: "AnnotationsImport ?c
        \<in> set (fst (runSingleFrameChain exactRounding ?I ([] :: (unit, unit) action list) [] 0 1 []
                      neverCancelled))
     \<and> getCollection_export ?I = Inr ?ex"
    by (rule conjI)
  from n u have q: "(\<forall>s \<in> set (shapes ?ex). isInteger (clientID s))
       \<and> (\<forall>s \<in> set (shapes ?ex). \<forall>f \<in> set [0..1]. \<forall>g \<in> set [0..1].
             clientID s \<in> set (visibleIDs ?I [] f) \<and> clientID s \<in> set (visibleIDs ?I [] g)
             \<longrightarrow> f = g)"
    by (rule conjI)
  from t[THEN conjunct2, THEN conjunct2, THEN mp, OF p, THEN conjunct2, THEN conjunct2,
      THEN conjunct2, THEN mp, OF q]
  have b: "mset (map omit_id (shapes ?c)) = mset (map omit_id (shapes ?ex))" .
  from a b show ?thesis by simp
qed




end
